theory Spec2Isabelle
  imports Main "HOL-Library.Sublist"
begin

section \<open>Strings\<close>

text \<open>
  Python strings are modelled as lists of characters with code points below 128: \<open>lower\<close>
  is \<^verbatim>\<open>str.lower\<close> on ASCII letters, \<open>is_space\<close> is the ASCII part of what
  \<^verbatim>\<open>\s\<close> and \<^verbatim>\<open>str.strip\<close> treat as whitespace (tab, newline, vertical tab,
  form feed, carriage return, the separators 0x1C to 0x1F, space), and \<open>contains s sub\<close>
  is \<^verbatim>\<open>sub in s\<close>. \<open>strip_tags\<close> is \<^verbatim>\<open>re.sub(r"<[^>]+>", " ", s)\<close>: a tag starts at a
  \<^verbatim>\<open><\<close>, runs over at least one character other than \<^verbatim>\<open>>\<close> and ends at the first
  \<^verbatim>\<open>>\<close>. \<open>replace_runs P rep\<close> replaces every maximal run of characters satisfying \<open>P\<close>
  by \<open>rep\<close>, as \<^verbatim>\<open>re.sub(r"\s+", " ", s)\<close> does for whitespace.
\<close>

definition lower_char :: "char \<Rightarrow> char" where
  "lower_char c =
     (case map_of (zip ''ABCDEFGHIJKLMNOPQRSTUVWXYZ'' ''abcdefghijklmnopqrstuvwxyz'') c of
        None \<Rightarrow> c
      | Some l \<Rightarrow> l)"

definition lower :: "string \<Rightarrow> string" where
  "lower s = map lower_char s"

definition is_space :: "char \<Rightarrow> bool" where
  "is_space c =
     ((9 \<le> (of_char c :: nat) \<and> (of_char c :: nat) \<le> 13) \<or>
      (28 \<le> (of_char c :: nat) \<and> (of_char c :: nat) \<le> 32))"

fun contains :: "string \<Rightarrow> string \<Rightarrow> bool" where
  "contains [] sub = (sub = [])"
| "contains (c # cs) sub = (prefix sub (c # cs) \<or> contains cs sub)"

definition replace_char :: "char \<Rightarrow> char \<Rightarrow> string \<Rightarrow> string" where
  "replace_char old new s = map (\<lambda>c. if c = old then new else c) s"

function strip_tags :: "string \<Rightarrow> string" where
  "strip_tags [] = []"
| "strip_tags (c # cs) =
     (if c = CHR ''<'' \<and> takeWhile (\<lambda>x. x \<noteq> CHR ''>'') cs \<noteq> []
         \<and> dropWhile (\<lambda>x. x \<noteq> CHR ''>'') cs \<noteq> []
      then CHR '' '' # strip_tags (tl (dropWhile (\<lambda>x. x \<noteq> CHR ''>'') cs))
      else c # strip_tags cs)"
  by pat_completeness auto
termination
proof (relation "measure length")
  show "wf (measure length)" by simp
next
  fix c :: char and cs :: string
  have "length (dropWhile (\<lambda>x. x \<noteq> CHR ''>'') cs) \<le> length cs"
    by (rule length_dropWhile_le)
  then have "length (tl (dropWhile (\<lambda>x. x \<noteq> CHR ''>'') cs)) \<le> length cs"
    by simp
  then show "(tl (dropWhile (\<lambda>x. x \<noteq> CHR ''>'') cs), c # cs) \<in> measure length"
    by simp
next
  fix c :: char and cs :: string
  show "(cs, c # cs) \<in> measure length" by simp
qed

function replace_runs :: "(char \<Rightarrow> bool) \<Rightarrow> char \<Rightarrow> string \<Rightarrow> string" where
  "replace_runs P rep [] = []"
| "replace_runs P rep (c # cs) =
     (if P c then rep # replace_runs P rep (dropWhile P cs)
      else c # replace_runs P rep cs)"
  by pat_completeness auto
termination
proof (relation "measure (\<lambda>(P, rep, s). length s)")
  show "wf (measure (\<lambda>(P, rep, s). length s))" by simp
next
  fix P :: "char \<Rightarrow> bool" and rep c :: char and cs :: string
  have "length (dropWhile P cs) \<le> length cs"
    by (rule length_dropWhile_le)
  then show "((P, rep, dropWhile P cs), (P, rep, c # cs)) \<in> measure (\<lambda>(P, rep, s). length s)"
    by simp
next
  fix P :: "char \<Rightarrow> bool" and rep c :: char and cs :: string
  show "((P, rep, cs), (P, rep, c # cs)) \<in> measure (\<lambda>(P, rep, s). length s)" by simp
qed

definition collapse_ws :: "string \<Rightarrow> string" where
  "collapse_ws s = replace_runs is_space (CHR '' '') s"

definition strip_chars :: "(char \<Rightarrow> bool) \<Rightarrow> string \<Rightarrow> string" where
  "strip_chars P s = rev (dropWhile P (rev (dropWhile P s)))"

definition strip :: "string \<Rightarrow> string" where
  "strip s = strip_chars is_space s"

section \<open>License classifier\<close>

text \<open>
  \<^verbatim>\<open>license_is_open\<close> of \<^verbatim>\<open>helpers/licensing.py\<close> with its two tables. The allow-list is a
  Python set; the order of the list plays no part in \<^verbatim>\<open>any\<close>.
\<close>

definition ACCEPTED :: "string list" where
  "ACCEPTED =
     [''cc-by'', ''cc-by-sa'', ''cc-by-nc'', ''cc-by-nc-sa'', ''cc-by-nd'', ''cc-by-nc-nd'',
      ''cc0'', ''cc0-1.0'', ''public domain'', ''odc-by'', ''odc-odbl'', ''odc-pddl'',
      ''mit'', ''apache-2.0'', ''standard-access'', ''etalab'']"

definition OPEN_PHRASES :: "string list" where
  "OPEN_PHRASES =
     [''creative commons'', ''cc by'', ''cc0'', ''statistics canada open licence'',
      ''licence ouverte'', ''public domain'', ''not aware of any copyright'',
      ''no known restrictions'', ''no known copyright restrictions'', ''non-restricted'',
      ''fully open content'', ''united states government work'',
      ''(a) openly available'', ''(a) vapaasti'']"

definition cleaned_of :: "string \<Rightarrow> string" where
  "cleaned_of identifier = strip (collapse_ws (strip_tags identifier))"

definition canonical_of :: "string \<Rightarrow> string" where
  "canonical_of cleaned =
     replace_char (CHR ''_'') (CHR ''-'') (replace_char (CHR '' '') (CHR ''-'') (lower cleaned))"

definition license_is_open :: "string option \<Rightarrow> bool" where
  "license_is_open identifier =
     (case identifier of
        None \<Rightarrow> False
      | Some s \<Rightarrow>
          if s = [] then False
          else if list_ex (\<lambda>p. prefix p (canonical_of (cleaned_of s))) ACCEPTED then True
          else list_ex (\<lambda>phrase. contains (lower (cleaned_of s)) phrase) OPEN_PHRASES)"

section \<open>File classifier\<close>

text \<open>
  \<^verbatim>\<open>str.split(sep)\<close> for a non-empty separator, and the pieces of \<^verbatim>\<open>pathlib\<close> that the
  pipeline uses: the parts of a path (empty and \<^verbatim>\<open>.\<close> components are dropped), its name,
  its suffix (the name from its last dot on, unless the dot is first or last) and its
  parent.
\<close>

function split_str :: "string \<Rightarrow> string \<Rightarrow> string list" where
  "split_str sep [] = [[]]"
| "split_str sep (c # cs) =
     (if sep \<noteq> [] \<and> prefix sep (c # cs)
      then [] # split_str sep (drop (length sep) (c # cs))
      else (case split_str sep cs of
              [] \<Rightarrow> [[c]]
            | x # xs \<Rightarrow> (c # x) # xs))"
  by pat_completeness auto
termination
proof (relation "measure (\<lambda>(sep, s). length s)")
  show "wf (measure (\<lambda>(sep, s). length s))" by simp
next
  fix sep :: string and c :: char and cs :: string
  assume "sep \<noteq> [] \<and> prefix sep (c # cs)"
  then have "0 < length sep" by simp
  then show "((sep, drop (length sep) (c # cs)), (sep, c # cs)) \<in> measure (\<lambda>(sep, s). length s)"
    by simp
next
  fix sep :: string and c :: char and cs :: string
  show "((sep, cs), (sep, c # cs)) \<in> measure (\<lambda>(sep, s). length s)" by simp
qed

definition path_parts :: "string \<Rightarrow> string list" where
  "path_parts p = filter (\<lambda>x. x \<noteq> [] \<and> x \<noteq> ''.'') (split_str ''/'' p)"

definition path_name :: "string \<Rightarrow> string" where
  "path_name p = (case path_parts p of [] \<Rightarrow> [] | x # xs \<Rightarrow> last (x # xs))"

definition rfind :: "char \<Rightarrow> string \<Rightarrow> nat option" where
  "rfind c s =
     (if c \<in> set s then Some (length s - 1 - length (takeWhile (\<lambda>x. x \<noteq> c) (rev s)))
      else None)"

definition path_suffix :: "string \<Rightarrow> string" where
  "path_suffix p =
     (let name = path_name p in
      case rfind (CHR ''.'') name of
        None \<Rightarrow> []
      | Some i \<Rightarrow> if 0 < i \<and> i < length name - 1 then drop i name else [])"

definition join_str :: "string \<Rightarrow> string list \<Rightarrow> string" where
  "join_str sep xs = (case xs of [] \<Rightarrow> [] | y # ys \<Rightarrow> y @ concat (map (\<lambda>z. sep @ z) ys))"

definition path_parent :: "string \<Rightarrow> string" where
  "path_parent p =
     (if prefix ''/'' p then ''/'' else []) @ join_str ''/'' (butlast (path_parts p))"

text \<open>
  A file descriptor of a dataset's manifest: the dictionary that every adapter builds.
  The keys the pipeline reads with \<^verbatim>\<open>finfo[...]\<close> are fields; the keys it reads with
  \<^verbatim>\<open>finfo.get(...)\<close> are optional, \<open>None\<close> standing for an absent key.
\<close>

record file_info =
  fi_id :: string
  fi_name :: string
  fi_download_url :: string
  fi_size :: "int option"
  fi_content_type :: "string option"
  fi_friendly_type :: "string option"
  fi_restricted :: "bool option"
  fi_api_checksum :: "string option"

text \<open>
  The settings that \<^verbatim>\<open>harvester/settings.py\<close> loads from \<^verbatim>\<open>config.yml\<close>, which is not
  part of the sources: they are parameters here. The record also carries the three
  library functions the pipeline calls and that are not computed here: the SHA-256 digest
  of a byte string, the NFKD-and-ASCII folding of a title, and the path of a download
  relative to the project root (every adapter saves below the destination directory,
  which lies below the root, so that \<^verbatim>\<open>relative_to\<close> returns).
\<close>

type_synonym bytes = "char list"

record settings =
  QDA_FORMATS :: "string set"
  QUALITATIVE_FORMATS :: "string set"
  EXCLUDED_RESOURCE_TYPES :: "string set"
  RELEVANCE_KEYWORDS :: "string set"
  FOLDER_NAMES :: "string \<rightharpoonup> string"
  DOWNLOAD_DIR :: string
  sha256_hex :: "bytes \<Rightarrow> string"
  ascii_fold :: "string \<Rightarrow> string"
  relative_to_root :: "string \<Rightarrow> string"

definition get_str :: "string option \<Rightarrow> string" where
  "get_str v = (case v of None \<Rightarrow> [] | Some s \<Rightarrow> s)"

definition is_qda_file :: "settings \<Rightarrow> string \<Rightarrow> file_info \<Rightarrow> bool" where
  "is_qda_file cfg fname finfo =
     (let ext = lower (path_suffix fname);
          label = lower (get_str (fi_friendly_type finfo));
          mime = lower (get_str (fi_content_type finfo))
      in ext \<in> QDA_FORMATS cfg \<or> contains label ''refi-qda'' \<or> contains mime ''refiqda'')"

definition dataset_has_qda :: "settings \<Rightarrow> file_info list \<Rightarrow> bool" where
  "dataset_has_qda cfg files = list_ex (\<lambda>f. is_qda_file cfg (fi_name f) f) files"

section \<open>Records of the pipeline\<close>

text \<open>
  \<^verbatim>\<open>DatasetHit\<close> of \<^verbatim>\<open>sources/base.py\<close>, used both for a search hit and for the enriched
  metadata. The license may be null, as \<^verbatim>\<open>license_is_open\<close> expects.
\<close>

record dataset_hit =
  h_source_name :: string
  h_source_url :: string
  h_title :: string
  h_description :: string
  h_authors :: string
  h_license_type :: "string option"
  h_license_url :: string
  h_date_published :: string
  h_tags :: "string list"
  h_keywords :: "string list"
  h_kind_of_data :: "string list"
  h_language :: "string list"
  h_software :: "string list"
  h_geographic_coverage :: "string list"
  h_depositor :: string
  h_producer :: "string list"
  h_publication :: "string list"
  h_date_of_collection :: string
  h_time_period_covered :: string
  h_uploader_name :: string
  h_uploader_email :: string
  h_files :: "file_info list"

text \<open>
  A row of the \<^verbatim>\<open>File\<close> table. \<^verbatim>\<open>harvester/database/models.py\<close> is not part of the
  sources: the columns are those that the two constructor calls of \<^verbatim>\<open>cli.py\<close> set, a column
  that a call leaves out being null. The dataset-level columns, which both calls fill with
  the same expressions, are grouped in \<open>dataset_columns\<close>. The primary key and the two
  timestamps are left out.
\<close>

record dataset_columns =
  ds_license_type :: "string option"
  ds_license_url :: string
  ds_title :: string
  ds_description :: string
  ds_authors :: string
  ds_date_published :: string
  ds_tags :: "string option"
  ds_keywords :: "string option"
  ds_kind_of_data :: "string option"
  ds_language :: "string option"
  ds_software :: "string option"
  ds_geographic_coverage :: "string option"
  ds_depositor :: "string option"
  ds_producer :: "string option"
  ds_publication :: "string option"
  ds_date_of_collection :: "string option"
  ds_time_period_covered :: "string option"
  ds_uploader_name :: "string option"
  ds_uploader_email :: "string option"

record file_row =
  source_name :: string
  source_url :: string
  download_url :: string
  file_name :: string
  file_type :: string
  file_hash :: "string option"
  file_size_bytes :: "int option"
  local_path :: "string option"
  local_directory :: "string option"
  dataset :: dataset_columns
  content_type :: "string option"
  friendly_type :: "string option"
  restricted :: bool
  api_checksum :: "string option"
  row_is_qda_file :: bool
  row_notes :: "string option"

definition join_opt :: "string list \<Rightarrow> string option" where
  "join_opt xs = (if xs \<noteq> [] then Some (join_str ''; '' xs) else None)"

definition nonempty_opt :: "string \<Rightarrow> string option" where
  "nonempty_opt s = (if s \<noteq> [] then Some s else None)"

definition dataset_columns_of :: "dataset_hit \<Rightarrow> dataset_columns" where
  "dataset_columns_of meta =
     \<lparr>ds_license_type = h_license_type meta,
      ds_license_url = h_license_url meta,
      ds_title = h_title meta,
      ds_description = h_description meta,
      ds_authors = h_authors meta,
      ds_date_published = h_date_published meta,
      ds_tags = join_opt (h_tags meta),
      ds_keywords = join_opt (h_keywords meta),
      ds_kind_of_data = join_opt (h_kind_of_data meta),
      ds_language = join_opt (h_language meta),
      ds_software = join_opt (h_software meta),
      ds_geographic_coverage = join_opt (h_geographic_coverage meta),
      ds_depositor = nonempty_opt (h_depositor meta),
      ds_producer = join_opt (h_producer meta),
      ds_publication = join_opt (h_publication meta),
      ds_date_of_collection = nonempty_opt (h_date_of_collection meta),
      ds_time_period_covered = nonempty_opt (h_time_period_covered meta),
      ds_uploader_name = nonempty_opt (h_uploader_name meta),
      ds_uploader_email = nonempty_opt (h_uploader_email meta)\<rparr>"

definition get_restricted :: "file_info \<Rightarrow> bool" where
  "get_restricted finfo = (case fi_restricted finfo of None \<Rightarrow> False | Some b \<Rightarrow> b)"

section \<open>The metadata-only writer\<close>

text \<open>
  \<^verbatim>\<open>_store_metadata_record\<close>: the session is the list of rows of the table, in the order
  of insertion; a query \<^verbatim>\<open>filter_by(...).first()\<close> is used for existence only.
\<close>

definition metadata_record ::
  "string \<Rightarrow> dataset_hit \<Rightarrow> dataset_hit \<Rightarrow> file_info \<Rightarrow> string \<Rightarrow> string \<Rightarrow> bool \<Rightarrow>
   string option \<Rightarrow> string \<Rightarrow> file_row" where
  "metadata_record src_name hit meta finfo fname ext qda_flag folder note =
     \<lparr>source_name = src_name,
      source_url = h_source_url hit,
      download_url = fi_download_url finfo,
      file_name = fname,
      file_type = ext,
      file_hash = None,
      file_size_bytes = fi_size finfo,
      local_path = None,
      local_directory = folder,
      dataset = dataset_columns_of meta,
      content_type = fi_content_type finfo,
      friendly_type = fi_friendly_type finfo,
      restricted = get_restricted finfo,
      api_checksum = fi_api_checksum finfo,
      row_is_qda_file = qda_flag,
      row_notes = Some note\<rparr>"

definition store_metadata_record ::
  "file_row list \<Rightarrow> string \<Rightarrow> dataset_hit \<Rightarrow> dataset_hit \<Rightarrow> file_info \<Rightarrow> string \<Rightarrow> string \<Rightarrow>
   bool \<Rightarrow> string option \<Rightarrow> string \<Rightarrow> file_row list" where
  "store_metadata_record session src_name hit meta finfo fname ext qda_flag folder note =
     (if list_ex (\<lambda>r. source_name r = src_name \<and> download_url r = fi_download_url finfo
                       \<and> file_name r = fname) session
      then session
      else session @ [metadata_record src_name hit meta finfo fname ext qda_flag folder note])"

definition default_notes :: string where
  "default_notes = ''access restricted''"

section \<open>Storage paths\<close>

text \<open>
  \<^verbatim>\<open>to_slug\<close> and \<^verbatim>\<open>build_output_path\<close> of \<^verbatim>\<open>storage/files.py\<close>. The operator \<^verbatim>\<open>/\<close>
  of \<^verbatim>\<open>pathlib\<close> is written as concatenation with a slash, which is what it does for
  relative components. The directories that \<^verbatim>\<open>build_output_path\<close> creates are not part of
  the model: the disk of a run holds files only.
\<close>

definition is_alnum_lower :: "char \<Rightarrow> bool" where
  "is_alnum_lower c = (c \<in> set ''abcdefghijklmnopqrstuvwxyz0123456789'')"

definition to_slug :: "settings \<Rightarrow> string \<Rightarrow> nat \<Rightarrow> string" where
  "to_slug cfg txt ceiling =
     (let normalised = ascii_fold cfg txt;
          lowered = lower normalised;
          dashed = replace_runs (\<lambda>c. \<not> is_alnum_lower c) (CHR ''-'') lowered;
          collapsed = strip_chars (\<lambda>c. c = CHR ''-'')
                        (replace_runs (\<lambda>c. c = CHR ''-'') (CHR ''-'') dashed)
      in if length collapsed > ceiling
         then (let cut = take ceiling collapsed
               in case rfind (CHR ''-'') cut of None \<Rightarrow> cut | Some i \<Rightarrow> take i cut)
         else collapsed)"

definition path_join :: "string \<Rightarrow> string \<Rightarrow> string" where
  "path_join a b = a @ ''/'' @ b"

definition build_output_path :: "settings \<Rightarrow> string \<Rightarrow> string \<Rightarrow> string \<Rightarrow> string \<Rightarrow> string" where
  "build_output_path cfg source_key record_id filename title =
     (let slug = (if title \<noteq> [] then to_slug cfg title 60 else []);
          folder = (if slug \<noteq> [] then slug @ ''-'' @ record_id else record_id);
          full = path_join (path_join (DOWNLOAD_DIR cfg) source_key) folder
      in path_join full filename)"

section \<open>The source adapter and the state of a run\<close>

text \<open>
  The adapter contract of \<^verbatim>\<open>BaseSource\<close>. A call that raises returns \<open>None\<close>
  (\<open>src_find\<close>, \<open>src_fetch_metadata\<close>) or \<open>Raised\<close> with the exception
  (\<open>src_pull_file\<close>); a download that succeeds returns the local path it wrote and the
  bytes it wrote there. The adapter is a function of its arguments: it answers the same
  request in the same way every time it is asked.
\<close>

datatype exc =
    HTTPStatusError nat
  | ConnectError
  | ReadError
  | ConnectionError
  | OtherError

datatype pull_result =
    Saved string bytes
  | Raised exc

record source =
  src_find :: "string \<Rightarrow> dataset_hit list option"
  src_fetch_metadata :: "string \<Rightarrow> dataset_hit option"
  src_pull_file :: "string \<Rightarrow> string \<Rightarrow> string \<Rightarrow> pull_result"

text \<open>
  What \<^verbatim>\<open>_process_hits\<close> reads and writes: the table of records, the files on disk
  (a map from paths to contents) and its three counters.
\<close>

record run_state =
  session :: "file_row list"
  disk :: "string \<rightharpoonup> bytes"
  n_downloaded :: nat
  n_restricted :: nat
  n_skipped :: nat

section \<open>The admission pipeline\<close>

text \<open>
  The size in the notes of an oversized file is \<^verbatim>\<open>f"{file_bytes / (1024*1024):.0f}"\<close>: the
  quotient rounded to the nearest integer, a tie going to the even one. The division by a
  power of two is exact in double precision for sizes below \<open>2 ^ 53\<close> bytes, which is the
  range this definition covers.
\<close>

definition round_half_even :: "int \<Rightarrow> int \<Rightarrow> int" where
  "round_half_even n d =
     (let q = n div d; r = n mod d
      in if 2 * r < d then q
         else if 2 * r > d then q + 1
         else if even q then q else q + 1)"

fun dec_digits :: "nat \<Rightarrow> string" where
  "dec_digits n =
     (if n < 10 then [''0123456789'' ! n]
      else dec_digits (n div 10) @ [''0123456789'' ! (n mod 10)])"

definition mb_str :: "int \<Rightarrow> string" where
  "mb_str file_bytes =
     (if file_bytes < 0 then ''-'' else []) @
     dec_digits (nat (round_half_even \<bar>file_bytes\<bar> (1024 * 1024)))"

definition oversized_notes :: "int \<Rightarrow> string" where
  "oversized_notes file_bytes = ''oversized ('' @ mb_str file_bytes @ '' MB)''"

definition record_id :: "dataset_hit \<Rightarrow> file_info \<Rightarrow> string" where
  "record_id hit finfo =
     (let rid = (if contains (h_source_url hit) ''persistentId=''
                 then last (split_str ''persistentId='' (h_source_url hit))
                 else fi_id finfo)
      in replace_char (CHR '':'') (CHR ''_'') (replace_char (CHR ''/'') (CHR ''_'') rid))"

definition downloaded_record ::
  "settings \<Rightarrow> string \<Rightarrow> dataset_hit \<Rightarrow> dataset_hit \<Rightarrow> file_info \<Rightarrow> string \<Rightarrow> string \<Rightarrow> bool \<Rightarrow>
   string \<Rightarrow> string \<Rightarrow> string \<Rightarrow> file_row" where
  "downloaded_record cfg src_name hit meta finfo fname ext qda_flag folder_name local digest =
     \<lparr>source_name = src_name,
      source_url = h_source_url hit,
      download_url = fi_download_url finfo,
      file_name = fname,
      file_type = ext,
      file_hash = Some digest,
      file_size_bytes = fi_size finfo,
      local_path = Some (relative_to_root cfg local),
      local_directory = Some folder_name,
      dataset = dataset_columns_of meta,
      content_type = fi_content_type finfo,
      friendly_type = fi_friendly_type finfo,
      restricted = get_restricted finfo,
      api_checksum = fi_api_checksum finfo,
      row_is_qda_file = qda_flag,
      row_notes = None\<rparr>"

text \<open>
  The body of the loop over the files of one dataset, in two parts: \<open>attempt_download\<close>
  is what follows the size-cap gate (the restriction gate, the download, the hash gate and
  the insertion), \<open>process_file\<close> is the whole body. \<open>dest_path_of\<close> is the storage
  path that the body computes between the format gate and the duplicate-by-URL gate.
\<close>

definition dest_path_of :: "settings \<Rightarrow> string \<Rightarrow> dataset_hit \<Rightarrow> dataset_hit \<Rightarrow> file_info \<Rightarrow> string" where
  "dest_path_of cfg src_name hit meta finfo =
     (let rid = record_id hit finfo;
          dir_label = (case FOLDER_NAMES cfg src_name of None \<Rightarrow> src_name | Some l \<Rightarrow> l)
      in build_output_path cfg dir_label rid (fi_name finfo) (h_title meta))"

definition attempt_download ::
  "settings \<Rightarrow> source \<Rightarrow> string \<Rightarrow> dataset_hit \<Rightarrow> dataset_hit \<Rightarrow> file_info \<Rightarrow>
   run_state \<Rightarrow> run_state" where
  "attempt_download cfg src src_name hit meta finfo st =
     (let fname = fi_name finfo;
          file_url = fi_download_url finfo;
          ext = lower (path_suffix fname);
          qda_flag = is_qda_file cfg fname finfo;
          dest_dir = path_parent (dest_path_of cfg src_name hit meta finfo);
          folder_name = path_name dest_dir
      in if get_restricted finfo
         then st\<lparr>session := store_metadata_record (session st) src_name hit meta finfo
                                fname ext qda_flag (Some folder_name) default_notes,
                 n_restricted := n_restricted st + 1\<rparr>
         else
           (case src_pull_file src file_url dest_dir fname of
              Raised err \<Rightarrow>
                (case err of
                   HTTPStatusError code \<Rightarrow>
                     if code = 403
                     then st\<lparr>session := store_metadata_record (session st) src_name hit meta
                                            finfo fname ext qda_flag (Some folder_name)
                                            default_notes,
                             n_restricted := n_restricted st + 1\<rparr>
                     else st
                 | _ \<Rightarrow> st)
            | Saved local content \<Rightarrow>
                (let written = (disk st)(local \<mapsto> content);
                     digest = sha256_hex cfg content
                 in if list_ex (\<lambda>r. file_hash r = Some digest) (session st)
                    then st\<lparr>disk := written(local := None)\<rparr>
                    else st\<lparr>disk := written,
                            session := session st @
                              [downloaded_record cfg src_name hit meta finfo fname ext
                                 qda_flag folder_name local digest],
                            n_downloaded := n_downloaded st + 1\<rparr>)))"

definition process_file ::
  "settings \<Rightarrow> source \<Rightarrow> string \<Rightarrow> int \<Rightarrow> dataset_hit \<Rightarrow> dataset_hit \<Rightarrow> file_info \<Rightarrow>
   run_state \<Rightarrow> run_state" where
  "process_file cfg src src_name size_cap hit meta finfo st =
     (let fname = fi_name finfo;
          file_url = fi_download_url finfo;
          ext = lower (path_suffix fname);
          qda_flag = is_qda_file cfg fname finfo
      in if \<not> qda_flag \<and> ext \<notin> QUALITATIVE_FORMATS cfg
         then st\<lparr>session := store_metadata_record (session st) src_name hit meta finfo
                                fname ext qda_flag None ''irrelevant file type''\<rparr>
         else
           (let folder_name = path_name (path_parent (dest_path_of cfg src_name hit meta finfo))
            in if list_ex (\<lambda>r. source_name r = src_name \<and> download_url r = file_url) (session st)
               then st
               else
                 (let file_bytes = (case fi_size finfo of None \<Rightarrow> 0 | Some n \<Rightarrow> n)
                  in if size_cap \<noteq> 0 \<and> file_bytes > size_cap \<and> \<not> qda_flag
                     then st\<lparr>session := store_metadata_record (session st) src_name hit meta finfo
                                            fname ext qda_flag (Some folder_name)
                                            (oversized_notes file_bytes),
                             n_skipped := n_skipped st + 1\<rparr>
                     else attempt_download cfg src src_name hit meta finfo st)))"

definition process_files ::
  "settings \<Rightarrow> source \<Rightarrow> string \<Rightarrow> int \<Rightarrow> dataset_hit \<Rightarrow> dataset_hit \<Rightarrow> file_info list \<Rightarrow>
   run_state \<Rightarrow> run_state" where
  "process_files cfg src src_name size_cap hit meta files st =
     foldl (\<lambda>acc finfo. process_file cfg src src_name size_cap hit meta finfo acc) st files"

definition combined_text :: "dataset_hit \<Rightarrow> string" where
  "combined_text meta =
     lower (h_description meta) @
     (if h_keywords meta \<noteq> [] then '' '' @ join_str '' '' (map lower (h_keywords meta)) else [])"

text \<open>The body of the loop over the hits: the gates on the dataset, then its files.\<close>

definition process_hit ::
  "settings \<Rightarrow> source \<Rightarrow> string \<Rightarrow> int \<Rightarrow> dataset_hit \<Rightarrow> run_state \<Rightarrow> run_state" where
  "process_hit cfg src src_name size_cap hit st =
     (case src_fetch_metadata src (h_source_url hit) of
        None \<Rightarrow> st
      | Some meta \<Rightarrow>
          if \<not> license_is_open (h_license_type meta)
          then st\<lparr>n_skipped := n_skipped st + 1\<rparr>
          else if h_files meta = [] then st
          else if h_kind_of_data meta \<noteq> []
                  \<and> list_ex (\<lambda>v. lower (strip v) \<in> EXCLUDED_RESOURCE_TYPES cfg) (h_kind_of_data meta)
                  \<and> \<not> dataset_has_qda cfg (h_files meta)
          then st\<lparr>n_skipped := n_skipped st + 1\<rparr>
          else if \<not> dataset_has_qda cfg (h_files meta)
                  \<and> \<not> (\<exists>kw\<in>RELEVANCE_KEYWORDS cfg. contains (combined_text meta) kw)
          then st\<lparr>n_skipped := n_skipped st + 1\<rparr>
          else process_files cfg src src_name size_cap hit meta (h_files meta) st)"

definition process_hits ::
  "settings \<Rightarrow> source \<Rightarrow> string \<Rightarrow> dataset_hit list \<Rightarrow> run_state \<Rightarrow> int \<Rightarrow> run_state" where
  "process_hits cfg src src_name hits st size_cap =
     foldl (\<lambda>acc hit. process_hit cfg src src_name size_cap hit acc)
       (st\<lparr>n_downloaded := 0, n_restricted := 0, n_skipped := 0\<rparr>) hits"

definition DEFAULT_SIZE_CAP :: int where
  "DEFAULT_SIZE_CAP = 100 * 1024 * 1024"

section \<open>The harvest run driver\<close>

text \<open>
  \<^verbatim>\<open>hits[:cap]\<close> under \<^verbatim>\<open>if cap\<close>: no cap and a cap of zero keep the list, a negative
  cap drops that many hits from the end.
\<close>

definition take_cap :: "int option \<Rightarrow> 'a list \<Rightarrow> 'a list" where
  "take_cap cap hits =
     (case cap of
        None \<Rightarrow> hits
      | Some c \<Rightarrow>
          if c = 0 then hits
          else if c > 0 then take (nat c) hits
          else take (length hits - nat (- c)) hits)"

definition select_hits ::
  "string set \<Rightarrow> int option \<Rightarrow> dataset_hit list \<Rightarrow> string set \<times> dataset_hit list" where
  "select_hits seen_urls cap found =
     (let fresh = filter (\<lambda>h. h_source_url h \<notin> seen_urls) found;
          seen' = seen_urls \<union> set (map h_source_url fresh)
      in (seen', take_cap cap fresh))"

text \<open>
  The state of \<^verbatim>\<open>_run_source\<close>: the URLs seen, what the pipeline works on, and the three
  totals. The driver uses the pipeline only through its call, so the loop is written over
  any pipeline \<open>proc\<close>, which maps the hits it is given and the world to the new world and
  the triple it returns.
\<close>

record 'w driver_state =
  seen :: "string set"
  world :: 'w
  tot_dl :: nat
  tot_rest :: nat
  tot_skip :: nat

definition query_step ::
  "(dataset_hit list \<Rightarrow> 'w \<Rightarrow> 'w \<times> nat \<times> nat \<times> nat) \<Rightarrow> source \<Rightarrow> int option \<Rightarrow> string \<Rightarrow>
   'w driver_state \<Rightarrow> 'w driver_state" where
  "query_step proc src cap q d =
     (case src_find src q of
        None \<Rightarrow> d
      | Some found \<Rightarrow>
          (case select_hits (seen d) cap found of
             (seen', hits) \<Rightarrow>
               if hits = [] then d\<lparr>seen := seen'\<rparr>
               else (case proc hits (world d) of
                       (w', dl, rest, skip) \<Rightarrow>
                         \<lparr>seen = seen', world = w', tot_dl = tot_dl d + dl,
                          tot_rest = tot_rest d + rest, tot_skip = tot_skip d + skip\<rparr>)))"

definition run_queries ::
  "(dataset_hit list \<Rightarrow> 'w \<Rightarrow> 'w \<times> nat \<times> nat \<times> nat) \<Rightarrow> source \<Rightarrow> int option \<Rightarrow> string list \<Rightarrow>
   'w driver_state \<Rightarrow> 'w driver_state" where
  "run_queries proc src cap queries d = foldl (\<lambda>acc q. query_step proc src cap q acc) d queries"

definition pipeline ::
  "settings \<Rightarrow> source \<Rightarrow> string \<Rightarrow> int \<Rightarrow> dataset_hit list \<Rightarrow> run_state \<Rightarrow>
   run_state \<times> nat \<times> nat \<times> nat" where
  "pipeline cfg src src_name size_cap hits st =
     (let st' = process_hits cfg src src_name hits st size_cap
      in (st', n_downloaded st', n_restricted st', n_skipped st'))"

definition run_source ::
  "settings \<Rightarrow> source \<Rightarrow> string \<Rightarrow> string list \<Rightarrow> int option \<Rightarrow> int \<Rightarrow> run_state \<Rightarrow>
   run_state driver_state" where
  "run_source cfg src src_name queries cap size_cap st =
     run_queries (pipeline cfg src src_name size_cap) src cap queries
       \<lparr>seen = {}, world = st, tot_dl = 0, tot_rest = 0, tot_skip = 0\<rparr>"

text \<open>The hits that the iteration for query \<open>q\<close> hands to the pipeline from state \<open>d\<close>.\<close>

definition hits_fed :: "source \<Rightarrow> int option \<Rightarrow> string \<Rightarrow> 'w driver_state \<Rightarrow> dataset_hit list" where
  "hits_fed src cap q d =
     (case src_find src q of
        None \<Rightarrow> []
      | Some found \<Rightarrow> snd (select_hits (seen d) cap found))"

section \<open>Streaming a file to disk\<close>

text \<open>
  \<^verbatim>\<open>DataverseSource.pull_file\<close>. The network is a function from the number of the attempt
  to what that attempt meets: a response streamed to its end (its content-disposition
  header and its body), a response whose stream raises after some bytes were written, or
  an exception before anything is written (\<^verbatim>\<open>raise_for_status\<close> included). The state
  holds the disk, the sleeps made in seconds and the number of requests sent.
\<close>

datatype attempt_result =
    Streamed string bytes
  | Interrupted string bytes exc
  | Refused exc

datatype pull_outcome =
    Returned string
  | ReturnedNone
  | Raises exc

record dl_state =
  dl_disk :: "string \<rightharpoonup> bytes"
  dl_slept :: "nat list"
  dl_requests :: nat

definition RETRY_LIMIT :: nat where
  "RETRY_LIMIT = 3"

definition INITIAL_BACKOFF :: nat where
  "INITIAL_BACKOFF = 2"

fun after_first :: "string \<Rightarrow> string \<Rightarrow> string" where
  "after_first sep [] = []"
| "after_first sep (c # cs) =
     (if prefix sep (c # cs) then drop (length sep) (c # cs) else after_first sep cs)"

definition name_from_headers :: "string \<Rightarrow> string option" where
  "name_from_headers cd =
     (if contains cd ''filename=''
      then (let segment = after_first ''filename='' cd;
                unquoted = strip_chars (\<lambda>c. c = CHR 0x27)
                             (strip_chars (\<lambda>c. c = CHR 0x22) segment)
            in Some (strip (takeWhile (\<lambda>c. c \<noteq> CHR '';'') unquoted)))
      else None)"

definition falsy :: "string option \<Rightarrow> bool" where
  "falsy v = (case v of None \<Rightarrow> True | Some s \<Rightarrow> s = [])"

definition resolve_filename :: "string option \<Rightarrow> string \<Rightarrow> string \<Rightarrow> string" where
  "resolve_filename filename cd url =
     (let f1 = (if falsy filename then name_from_headers cd else filename);
          f2 = (if falsy f1
                then Some (last (split_str ''/'' (rev (dropWhile (\<lambda>c. c = CHR ''/'') (rev url)))))
                else f1)
      in get_str f2)"

definition is_transient :: "exc \<Rightarrow> bool" where
  "is_transient e = (e = ConnectError \<or> e = ReadError \<or> e = ConnectionError)"

function pull_from ::
  "(nat \<Rightarrow> attempt_result) \<Rightarrow> string \<Rightarrow> string \<Rightarrow> string option \<Rightarrow> nat \<Rightarrow> dl_state \<Rightarrow>
   pull_outcome \<times> dl_state" where
  "pull_from net url target filename attempt st =
     (if attempt > RETRY_LIMIT then (ReturnedNone, st)
      else
        (let st1 = st\<lparr>dl_requests := dl_requests st + 1\<rparr>
         in case net attempt of
              Streamed cd body \<Rightarrow>
                (let out = path_join target (resolve_filename filename cd url)
                 in (Returned out, st1\<lparr>dl_disk := (dl_disk st1)(out \<mapsto> body)\<rparr>))
            | Interrupted cd part err \<Rightarrow>
                (let fname = resolve_filename filename cd url;
                     out = path_join target fname;
                     st2 = st1\<lparr>dl_disk := (dl_disk st1)(out \<mapsto> part)\<rparr>
                 in if is_transient err
                    then (if attempt < RETRY_LIMIT
                          then pull_from net url target (Some fname) (attempt + 1)
                                 (st2\<lparr>dl_slept := dl_slept st2 @
                                        [INITIAL_BACKOFF * 2 ^ (attempt - 1)]\<rparr>)
                          else (Raises err, st2))
                    else (Raises err, st2))
            | Refused err \<Rightarrow>
                if is_transient err
                then (if attempt < RETRY_LIMIT
                      then pull_from net url target filename (attempt + 1)
                             (st1\<lparr>dl_slept := dl_slept st1 @
                                    [INITIAL_BACKOFF * 2 ^ (attempt - 1)]\<rparr>)
                      else (Raises err, st1))
                else (Raises err, st1)))"
  by pat_completeness auto
termination
  by (relation "measure (\<lambda>(net, url, target, filename, attempt, st). RETRY_LIMIT + 1 - attempt)")
     auto

declare pull_from.simps [simp del]

definition pull_file ::
  "(nat \<Rightarrow> attempt_result) \<Rightarrow> string \<Rightarrow> string \<Rightarrow> string option \<Rightarrow> dl_state \<Rightarrow>
   pull_outcome \<times> dl_state" where
  "pull_file net url dest_dir filename st = pull_from net url dest_dir filename 1 st"

section \<open>Notions used in the statements\<close>

text \<open>
  An HTML tag as the classifier strips it, and a string in which every \<^verbatim>\<open><\<close> is
  followed, somewhere later, by a \<^verbatim>\<open>>\<close>.
\<close>

fun tags_closed :: "string \<Rightarrow> bool" where
  "tags_closed [] = True"
| "tags_closed (c # cs) = ((c = CHR ''<'' \<longrightarrow> CHR ''>'' \<in> set cs) \<and> tags_closed cs)"

definition html_tag :: "string \<Rightarrow> bool" where
  "html_tag t =
     (case t of
        [] \<Rightarrow> False
      | c # rest \<Rightarrow>
          c = CHR ''<'' \<and> rest \<noteq> [] \<and> last rest = CHR ''>''
          \<and> butlast rest \<noteq> [] \<and> CHR ''>'' \<notin> set (butlast rest))"

text \<open>The exception an attempt ends with, and an attempt that fails transiently.\<close>

definition failure_of :: "attempt_result \<Rightarrow> exc option" where
  "failure_of r =
     (case r of
        Streamed cd body \<Rightarrow> None
      | Interrupted cd part err \<Rightarrow> Some err
      | Refused err \<Rightarrow> Some err)"

definition transient_failure :: "attempt_result \<Rightarrow> bool" where
  "transient_failure r = (case failure_of r of None \<Rightarrow> False | Some err \<Rightarrow> is_transient err)"

text \<open>
  Four networks: always down, always forbidden, reset once and then not found, two read
  errors and then gone.
\<close>

definition net_down :: "nat \<Rightarrow> attempt_result" where
  "net_down k = Refused ConnectError"

definition net_forbidden :: "nat \<Rightarrow> attempt_result" where
  "net_forbidden k = Refused (HTTPStatusError 403)"

definition net_reset_then_missing :: "nat \<Rightarrow> attempt_result" where
  "net_reset_then_missing k =
     (if k = 1 then Refused ConnectionError else Refused (HTTPStatusError 404))"

definition net_flaky_then_gone :: "nat \<Rightarrow> attempt_result" where
  "net_flaky_then_gone k = (if k < 3 then Refused ReadError else Refused (HTTPStatusError 410))"

definition fresh_dl :: dl_state where
  "fresh_dl = \<lparr>dl_disk = Map.empty, dl_slept = [], dl_requests = 0\<rparr>"

text \<open>
  The gates of the loop body as predicates on the state in which a file is processed, and
  the records that the gates insert.
\<close>

definition url_recorded :: "file_row list \<Rightarrow> string \<Rightarrow> string \<Rightarrow> bool" where
  "url_recorded rows src_name url =
     list_ex (\<lambda>r. source_name r = src_name \<and> download_url r = url) rows"

definition hash_recorded :: "file_row list \<Rightarrow> string \<Rightarrow> bool" where
  "hash_recorded rows digest = list_ex (\<lambda>r. file_hash r = Some digest) rows"

definition recognised_format :: "settings \<Rightarrow> file_info \<Rightarrow> bool" where
  "recognised_format cfg finfo =
     (is_qda_file cfg (fi_name finfo) finfo
      \<or> lower (path_suffix (fi_name finfo)) \<in> QUALITATIVE_FORMATS cfg)"

definition reaches_size_gate :: "settings \<Rightarrow> string \<Rightarrow> file_info \<Rightarrow> run_state \<Rightarrow> bool" where
  "reaches_size_gate cfg src_name finfo st =
     (recognised_format cfg finfo \<and> \<not> url_recorded (session st) src_name (fi_download_url finfo))"

definition declared_bytes :: "file_info \<Rightarrow> int" where
  "declared_bytes finfo = (case fi_size finfo of None \<Rightarrow> 0 | Some n \<Rightarrow> n)"

definition over_cap :: "settings \<Rightarrow> int \<Rightarrow> file_info \<Rightarrow> bool" where
  "over_cap cfg size_cap finfo =
     (size_cap \<noteq> 0 \<and> declared_bytes finfo > size_cap \<and> \<not> is_qda_file cfg (fi_name finfo) finfo)"

definition reaches_restriction_gate ::
  "settings \<Rightarrow> string \<Rightarrow> int \<Rightarrow> file_info \<Rightarrow> run_state \<Rightarrow> bool" where
  "reaches_restriction_gate cfg src_name size_cap finfo st =
     (reaches_size_gate cfg src_name finfo st \<and> \<not> over_cap cfg size_cap finfo)"

definition dest_dir_of :: "settings \<Rightarrow> string \<Rightarrow> dataset_hit \<Rightarrow> dataset_hit \<Rightarrow> file_info \<Rightarrow> string" where
  "dest_dir_of cfg src_name hit meta finfo = path_parent (dest_path_of cfg src_name hit meta finfo)"

definition folder_of :: "settings \<Rightarrow> string \<Rightarrow> dataset_hit \<Rightarrow> dataset_hit \<Rightarrow> file_info \<Rightarrow> string" where
  "folder_of cfg src_name hit meta finfo = path_name (dest_dir_of cfg src_name hit meta finfo)"

definition gate_record ::
  "settings \<Rightarrow> string \<Rightarrow> dataset_hit \<Rightarrow> dataset_hit \<Rightarrow> file_info \<Rightarrow> string \<Rightarrow> file_row" where
  "gate_record cfg src_name hit meta finfo note =
     metadata_record src_name hit meta finfo (fi_name finfo) (lower (path_suffix (fi_name finfo)))
       (is_qda_file cfg (fi_name finfo) finfo) (Some (folder_of cfg src_name hit meta finfo)) note"

definition pulled ::
  "settings \<Rightarrow> source \<Rightarrow> string \<Rightarrow> dataset_hit \<Rightarrow> dataset_hit \<Rightarrow> file_info \<Rightarrow> pull_result" where
  "pulled cfg src src_name hit meta finfo =
     src_pull_file src (fi_download_url finfo) (dest_dir_of cfg src_name hit meta finfo)
       (fi_name finfo)"

definition stored_download ::
  "settings \<Rightarrow> string \<Rightarrow> dataset_hit \<Rightarrow> dataset_hit \<Rightarrow> file_info \<Rightarrow> string \<Rightarrow> bytes \<Rightarrow> file_row" where
  "stored_download cfg src_name hit meta finfo local content =
     downloaded_record cfg src_name hit meta finfo (fi_name finfo)
       (lower (path_suffix (fi_name finfo))) (is_qda_file cfg (fi_name finfo) finfo)
       (folder_of cfg src_name hit meta finfo) local (sha256_hex cfg content)"

text \<open>
  The three shapes of a persisted record. The notes mention restriction when they contain
  the word the browsing commands look for; they explain a reason when they are the notes
  of the format gate or of the size gate.
\<close>

definition mentions_restriction :: "string option \<Rightarrow> bool" where
  "mentions_restriction note = (case note of None \<Rightarrow> False | Some n \<Rightarrow> contains n ''restricted'')"

definition explains_reason :: "string option \<Rightarrow> bool" where
  "explains_reason note =
     (case note of
        None \<Rightarrow> False
      | Some n \<Rightarrow> n = ''irrelevant file type'' \<or> prefix ''oversized ('' n)"

definition shape_downloaded :: "file_row \<Rightarrow> bool" where
  "shape_downloaded r =
     (local_path r \<noteq> None \<and> file_hash r \<noteq> None \<and> \<not> mentions_restriction (row_notes r))"

definition shape_restricted :: "file_row \<Rightarrow> bool" where
  "shape_restricted r =
     (local_path r = None \<and> (restricted r \<or> row_notes r = Some default_notes))"

definition shape_metadata_only :: "file_row \<Rightarrow> bool" where
  "shape_metadata_only r = (local_path r = None \<and> explains_reason (row_notes r))"

definition shape_count :: "file_row \<Rightarrow> nat" where
  "shape_count r =
     (if shape_downloaded r then 1 else 0) + (if shape_restricted r then 1 else 0)
     + (if shape_metadata_only r then 1 else 0)"

text \<open>What holds of every row that the pipeline inserts.\<close>

definition row_sound :: "file_row \<Rightarrow> bool" where
  "row_sound r =
     (case local_path r of
        Some p \<Rightarrow> file_hash r \<noteq> None \<and> row_notes r = None \<and> \<not> restricted r
      | None \<Rightarrow>
          file_hash r = None
          \<and> (row_notes r = Some default_notes \<or> explains_reason (row_notes r)))"

definition extends_by :: "(file_row \<Rightarrow> bool) \<Rightarrow> file_row list \<Rightarrow> file_row list \<Rightarrow> bool" where
  "extends_by P rows rows' = (\<exists>new. rows' = rows @ new \<and> (\<forall>r\<in>set new. P r))"

text \<open>The content hashes of the downloaded records, one entry for each record.\<close>

definition downloaded_hashes :: "file_row list \<Rightarrow> string option list" where
  "downloaded_hashes rows = map file_hash (filter (\<lambda>r. local_path r \<noteq> None) rows)"

section \<open>Concrete inputs\<close>

text \<open>
  A configuration, file descriptors, hits and metadata used where a statement is evaluated
  at a concrete input. The digest of the configuration is a stand-in for SHA-256: the
  bytes themselves.
\<close>

definition ex_cfg :: settings where
  "ex_cfg =
     \<lparr>QDA_FORMATS = {''.qdpx''},
      QUALITATIVE_FORMATS = {''.pdf'', ''.txt''},
      EXCLUDED_RESOURCE_TYPES = {''documentation''},
      RELEVANCE_KEYWORDS = {''qualitative'', ''interview''},
      FOLDER_NAMES = Map.empty,
      DOWNLOAD_DIR = ''/root/downloads'',
      sha256_hex = (\<lambda>b. b),
      ascii_fold = (\<lambda>s. s),
      relative_to_root = (\<lambda>p. p)\<rparr>"

definition mk_file :: "string \<Rightarrow> string \<Rightarrow> int option \<Rightarrow> bool \<Rightarrow> file_info" where
  "mk_file name url declared_size is_restricted =
     \<lparr>fi_id = ''1'', fi_name = name, fi_download_url = url, fi_size = declared_size,
      fi_content_type = Some ''text/plain'', fi_friendly_type = Some [],
      fi_restricted = Some is_restricted, fi_api_checksum = None\<rparr>"

definition mk_meta :: "string \<Rightarrow> string option \<Rightarrow> string \<Rightarrow> file_info list \<Rightarrow> dataset_hit" where
  "mk_meta url license description files =
     \<lparr>h_source_name = ''qdr'', h_source_url = url, h_title = ''Interviews'',
      h_description = description, h_authors = [], h_license_type = license,
      h_license_url = [], h_date_published = [], h_tags = [], h_keywords = [],
      h_kind_of_data = [], h_language = [], h_software = [], h_geographic_coverage = [],
      h_depositor = [], h_producer = [], h_publication = [], h_date_of_collection = [],
      h_time_period_covered = [], h_uploader_name = [], h_uploader_email = [],
      h_files = files\<rparr>"

definition mk_hit :: "string \<Rightarrow> dataset_hit" where
  "mk_hit url = mk_meta url None [] []"

definition empty_state :: run_state where
  "empty_state =
     \<lparr>session = [], disk = Map.empty, n_downloaded = 0, n_restricted = 0, n_skipped = 0\<rparr>"

text \<open>
  A source whose first query returns the datasets A and B and whose second query returns
  B and C, and a pipeline that only records the batches of hits it is handed.
\<close>

definition ex_find :: "string \<Rightarrow> dataset_hit list option" where
  "ex_find q =
     (if q = ''interview'' then Some [mk_hit ''ds/A'', mk_hit ''ds/B'']
      else if q = ''focus group'' then Some [mk_hit ''ds/B'', mk_hit ''ds/C'']
      else None)"

definition ex_search_source :: source where
  "ex_search_source =
     \<lparr>src_find = ex_find,
      src_fetch_metadata = (\<lambda>url. None),
      src_pull_file = (\<lambda>url dest_dir fname. Raised OtherError)\<rparr>"

definition recording ::
  "dataset_hit list \<Rightarrow> dataset_hit list list \<Rightarrow> dataset_hit list list \<times> nat \<times> nat \<times> nat" where
  "recording hits log = (log @ [hits], 0, 0, 0)"

definition fresh_driver :: "dataset_hit list list driver_state" where
  "fresh_driver = \<lparr>seen = {}, world = [], tot_dl = 0, tot_rest = 0, tot_skip = 0\<rparr>"

text \<open>
  A source with one dataset of openly licensed interview material. Downloads succeed and
  write below the destination directory, except for one URL that answers 403 and one that
  answers 404; two URLs serve the same bytes.
\<close>

definition ex_pull :: "string \<Rightarrow> string \<Rightarrow> string \<Rightarrow> pull_result" where
  "ex_pull url dest_dir fname =
     (if url = ''f/forbidden'' then Raised (HTTPStatusError 403)
      else if url = ''f/missing'' then Raised (HTTPStatusError 404)
      else if url = ''f/copy1'' \<or> url = ''f/copy2'' then Saved (dest_dir @ ''/'' @ fname) ''same bytes''
      else Saved (dest_dir @ ''/'' @ fname) url)"

definition ex_files :: "file_info list" where
  "ex_files =
     [mk_file ''project.qdpx'' ''f/qda'' (Some 209715200) False,
      mk_file ''codebook.zip'' ''f/zip'' (Some 10) True]"

definition ex_meta :: dataset_hit where
  "ex_meta = mk_meta ''ds/A'' (Some ''CC BY 4.0'') ''Qualitative interviews'' ex_files"

definition ex_source :: source where
  "ex_source =
     \<lparr>src_find = (\<lambda>q. Some [mk_hit ''ds/A'']),
      src_fetch_metadata = (\<lambda>url. if url = ''ds/A'' then Some ex_meta else None),
      src_pull_file = ex_pull\<rparr>"

text \<open>Two files with the same bytes under different names and download URLs.\<close>

definition ex_copy1 :: file_info where
  "ex_copy1 = mk_file ''transcript.txt'' ''f/copy1'' (Some 10) False"

definition ex_copy2 :: file_info where
  "ex_copy2 = mk_file ''interview-01.txt'' ''f/copy2'' (Some 10) False"

text \<open>
  A case and spacing variant of an identifier: each character of the variant lower-cases
  to the character of the identifier at its place, or stands for a hyphen of the
  identifier as a space or an underscore. The other definitions describe the identifiers
  of the allow-list: the characters they are made of, and separators (hyphen, space) that
  stand alone between two other characters.
\<close>

definition variant_char :: "char \<Rightarrow> char \<Rightarrow> bool" where
  "variant_char m v =
     (lower_char v = m \<or> (m = CHR ''-'' \<and> (v = CHR '' '' \<or> v = CHR ''_'')))"

definition variant_of :: "string \<Rightarrow> string \<Rightarrow> bool" where
  "variant_of m v = list_all2 variant_char m v"

definition member_char :: "char \<Rightarrow> bool" where
  "member_char c = (c \<in> set ''abcdefghijklmnopqrstuvwxyz0123456789.- '')"

definition sep_char :: "char \<Rightarrow> bool" where
  "sep_char c = (c = CHR ''-'' \<or> c = CHR '' '')"

fun single_sep :: "string \<Rightarrow> bool" where
  "single_sep [] = True"
| "single_sep [c] = (\<not> sep_char c)"
| "single_sep (a # b # r) = ((sep_char a \<longrightarrow> \<not> sep_char b) \<and> single_sep (b # r))"

fun single_spaced :: "string \<Rightarrow> bool" where
  "single_spaced [] = True"
| "single_spaced [c] = (\<not> is_space c)"
| "single_spaced (a # b # r) =
     ((is_space a \<longrightarrow> a = CHR '' '' \<and> \<not> is_space b) \<and> single_spaced (b # r))"

definition identifier_ok :: "string \<Rightarrow> bool" where
  "identifier_ok m =
     (m \<noteq> [] \<and> \<not> sep_char (hd m) \<and> single_sep m \<and> list_all member_char m)"

definition canon_char :: "char \<Rightarrow> char" where
  "canon_char c = (if c = CHR '' '' \<or> c = CHR ''_'' then CHR ''-'' else c)"

section \<open>The loop body, gate by gate\<close>

lemma metadata_record_sel [simp]:
  "source_name (metadata_record sn hit meta finfo fname ext q folder note) = sn"
  "download_url (metadata_record sn hit meta finfo fname ext q folder note) = fi_download_url finfo"
  "file_name (metadata_record sn hit meta finfo fname ext q folder note) = fname"
  "local_path (metadata_record sn hit meta finfo fname ext q folder note) = None"
  "file_hash (metadata_record sn hit meta finfo fname ext q folder note) = None"
  "row_notes (metadata_record sn hit meta finfo fname ext q folder note) = Some note"
  "restricted (metadata_record sn hit meta finfo fname ext q folder note) = get_restricted finfo"
  by (simp_all add: metadata_record_def)

lemma downloaded_record_sel [simp]:
  "source_name (downloaded_record cfg sn hit meta finfo fname ext q folder local digest) = sn"
  "download_url (downloaded_record cfg sn hit meta finfo fname ext q folder local digest)
     = fi_download_url finfo"
  "file_name (downloaded_record cfg sn hit meta finfo fname ext q folder local digest) = fname"
  "local_path (downloaded_record cfg sn hit meta finfo fname ext q folder local digest)
     = Some (relative_to_root cfg local)"
  "file_hash (downloaded_record cfg sn hit meta finfo fname ext q folder local digest) = Some digest"
  "row_notes (downloaded_record cfg sn hit meta finfo fname ext q folder local digest) = None"
  "restricted (downloaded_record cfg sn hit meta finfo fname ext q folder local digest)
     = get_restricted finfo"
  by (simp_all add: downloaded_record_def)

lemma url_recorded_iff:
  "url_recorded rows sn url \<longleftrightarrow> (\<exists>r\<in>set rows. source_name r = sn \<and> download_url r = url)"
  by (simp add: url_recorded_def list_ex_iff)

lemma hash_recorded_iff:
  "hash_recorded rows digest \<longleftrightarrow> (\<exists>r\<in>set rows. file_hash r = Some digest)"
  by (simp add: hash_recorded_def list_ex_iff)

lemma store_metadata_record_fresh:
  "\<not> url_recorded rows sn (fi_download_url finfo) \<Longrightarrow>
   store_metadata_record rows sn hit meta finfo fname ext q folder note
     = rows @ [metadata_record sn hit meta finfo fname ext q folder note]"
  by (auto simp: store_metadata_record_def url_recorded_iff list_ex_iff)

lemma store_metadata_record_cases:
  "store_metadata_record rows sn hit meta finfo fname ext q folder note = rows
   \<or> store_metadata_record rows sn hit meta finfo fname ext q folder note
       = rows @ [metadata_record sn hit meta finfo fname ext q folder note]"
  by (simp add: store_metadata_record_def)

text \<open>The loop body written with the gates as predicates.\<close>

lemma process_file_gates:
  "process_file cfg src sn size_cap hit meta finfo st =
     (if \<not> recognised_format cfg finfo
      then st\<lparr>session := store_metadata_record (session st) sn hit meta finfo (fi_name finfo)
                 (lower (path_suffix (fi_name finfo))) (is_qda_file cfg (fi_name finfo) finfo)
                 None ''irrelevant file type''\<rparr>
      else if url_recorded (session st) sn (fi_download_url finfo) then st
      else if over_cap cfg size_cap finfo
      then st\<lparr>session := session st @
                 [gate_record cfg sn hit meta finfo (oversized_notes (declared_bytes finfo))],
              n_skipped := n_skipped st + 1\<rparr>
      else attempt_download cfg src sn hit meta finfo st)"
  by (auto simp: process_file_def Let_def recognised_format_def url_recorded_def over_cap_def
      declared_bytes_def gate_record_def folder_of_def dest_dir_of_def
      store_metadata_record_fresh [unfolded url_recorded_def])

lemma attempt_download_gates:
  assumes "\<not> url_recorded (session st) sn (fi_download_url finfo)"
  shows "attempt_download cfg src sn hit meta finfo st =
     (if get_restricted finfo
      then st\<lparr>session := session st @ [gate_record cfg sn hit meta finfo default_notes],
              n_restricted := n_restricted st + 1\<rparr>
      else (case pulled cfg src sn hit meta finfo of
              Raised err \<Rightarrow>
                if err = HTTPStatusError 403
                then st\<lparr>session := session st @ [gate_record cfg sn hit meta finfo default_notes],
                        n_restricted := n_restricted st + 1\<rparr>
                else st
            | Saved local content \<Rightarrow>
                if hash_recorded (session st) (sha256_hex cfg content)
                then st\<lparr>disk := ((disk st)(local \<mapsto> content))(local := None)\<rparr>
                else st\<lparr>disk := (disk st)(local \<mapsto> content),
                        session := session st @
                          [stored_download cfg sn hit meta finfo local content],
                        n_downloaded := n_downloaded st + 1\<rparr>))"
  using assms
  by (auto simp: attempt_download_def Let_def hash_recorded_def gate_record_def folder_of_def
      dest_dir_of_def pulled_def stored_download_def store_metadata_record_fresh
      split: pull_result.splits exc.splits)

lemma process_files_Nil: "process_files cfg src sn size_cap hit meta [] st = st"
  by (simp add: process_files_def)

lemma process_files_Cons:
  "process_files cfg src sn size_cap hit meta (finfo # rest) st =
     process_files cfg src sn size_cap hit meta rest
       (process_file cfg src sn size_cap hit meta finfo st)"
  by (simp add: process_files_def)

section \<open>The retry loop of the download\<close>

lemma pull_from_transient:
  assumes "transient_failure (net k)" "k < RETRY_LIMIT" "k' = k + 1"
    "w = INITIAL_BACKOFF * 2 ^ (k - 1)"
  shows "\<exists>f' st'. pull_from net url t f k st = pull_from net url t f' k' st'
           \<and> dl_slept st' = dl_slept st @ [w]
           \<and> dl_requests st' = dl_requests st + 1"
proof (cases "net k")
  case (Streamed cd body)
  with assms(1) show ?thesis by (simp add: transient_failure_def failure_of_def)
next
  case (Interrupted cd part err)
  with assms have tr: "is_transient err" by (simp add: transient_failure_def failure_of_def)
  show ?thesis
    apply (subst pull_from.simps)
    using assms(2,3,4) tr Interrupted
    apply (simp add: Let_def)
    apply (rule exI, rule exI, rule conjI, rule refl)
    apply simp
    done
next
  case (Refused err)
  with assms have tr: "is_transient err" by (simp add: transient_failure_def failure_of_def)
  show ?thesis
    apply (subst pull_from.simps)
    using assms(2,3,4) tr Refused
    apply (simp add: Let_def)
    apply (rule exI, rule exI, rule conjI, rule refl)
    apply simp
    done
qed

lemma pull_from_last_transient:
  assumes "failure_of (net RETRY_LIMIT) = Some err" "is_transient err"
  shows "fst (pull_from net url t f RETRY_LIMIT st) = Raises err
       \<and> dl_slept (snd (pull_from net url t f RETRY_LIMIT st)) = dl_slept st
       \<and> dl_requests (snd (pull_from net url t f RETRY_LIMIT st)) = dl_requests st + 1"
proof (cases "net RETRY_LIMIT")
  case (Streamed cd body)
  with assms(1) show ?thesis by (simp add: failure_of_def)
next
  case (Interrupted cd part e)
  with assms show ?thesis
    by (subst (1 2 3) pull_from.simps) (simp add: failure_of_def Let_def)
next
  case (Refused e)
  with assms show ?thesis
    by (subst (1 2 3) pull_from.simps) (simp add: failure_of_def Let_def)
qed

lemma pull_from_status_error:
  assumes "net k = Refused (HTTPStatusError code)" "k \<le> RETRY_LIMIT"
  shows "fst (pull_from net url t f k st) = Raises (HTTPStatusError code)
       \<and> dl_slept (snd (pull_from net url t f k st)) = dl_slept st
       \<and> dl_requests (snd (pull_from net url t f k st)) = dl_requests st + 1"
  using assms by (subst (1 2 3) pull_from.simps) (simp add: is_transient_def Let_def)

text \<open>
  Claim C7: \<^verbatim>\<open>pull_file\<close> retries a transient connection failure (connect error, read
  error, connection reset) up to three attempts in all, sleeping 2 seconds and then 4
  seconds, after which the last error propagates; an HTTP status error is never retried:
  it propagates from the attempt that meets it, without a sleep after it (at the first
  attempt after one request, at the second after two requests and one sleep of 2 seconds,
  at the third after three requests and the sleeps of 2 and 4 seconds).
\<close>

theorem pull_file_retry_discipline:
  "(transient_failure (net 1) \<and> transient_failure (net 2) \<and> failure_of (net 3) = Some err
      \<and> is_transient err \<longrightarrow>
      fst (pull_file net url dest_dir filename st) = Raises err
      \<and> dl_slept (snd (pull_file net url dest_dir filename st)) = dl_slept st @ [2, 4]
      \<and> dl_requests (snd (pull_file net url dest_dir filename st)) = dl_requests st + 3)
   \<and> (net 1 = Refused (HTTPStatusError code) \<longrightarrow>
      fst (pull_file net url dest_dir filename st) = Raises (HTTPStatusError code)
      \<and> dl_slept (snd (pull_file net url dest_dir filename st)) = dl_slept st
      \<and> dl_requests (snd (pull_file net url dest_dir filename st)) = dl_requests st + 1)
   \<and> (transient_failure (net 1) \<and> net 2 = Refused (HTTPStatusError code) \<longrightarrow>
      fst (pull_file net url dest_dir filename st) = Raises (HTTPStatusError code)
      \<and> dl_slept (snd (pull_file net url dest_dir filename st)) = dl_slept st @ [2]
      \<and> dl_requests (snd (pull_file net url dest_dir filename st)) = dl_requests st + 2)
   \<and> (transient_failure (net 1) \<and> transient_failure (net 2)
        \<and> net 3 = Refused (HTTPStatusError code) \<longrightarrow>
      fst (pull_file net url dest_dir filename st) = Raises (HTTPStatusError code)
      \<and> dl_slept (snd (pull_file net url dest_dir filename st)) = dl_slept st @ [2, 4]
      \<and> dl_requests (snd (pull_file net url dest_dir filename st)) = dl_requests st + 3)"
proof (intro conjI impI)
  assume a: "transient_failure (net 1) \<and> transient_failure (net 2) \<and> failure_of (net 3) = Some err
      \<and> is_transient err"
  from a have "\<exists>f1 st1. pull_from net url dest_dir filename 1 st = pull_from net url dest_dir f1 2 st1
      \<and> dl_slept st1 = dl_slept st @ [2] \<and> dl_requests st1 = dl_requests st + 1"
    by (intro pull_from_transient) (simp_all add: RETRY_LIMIT_def INITIAL_BACKOFF_def)
  then obtain f1 st1 where s1: "pull_from net url dest_dir filename 1 st = pull_from net url dest_dir f1 2 st1"
    "dl_slept st1 = dl_slept st @ [2]" "dl_requests st1 = dl_requests st + 1"
    by blast
  from a have "\<exists>f2 st2. pull_from net url dest_dir f1 2 st1 = pull_from net url dest_dir f2 3 st2
      \<and> dl_slept st2 = dl_slept st1 @ [4] \<and> dl_requests st2 = dl_requests st1 + 1"
    by (intro pull_from_transient) (simp_all add: RETRY_LIMIT_def INITIAL_BACKOFF_def)
  then obtain f2 st2 where s2: "pull_from net url dest_dir f1 2 st1 = pull_from net url dest_dir f2 3 st2"
    "dl_slept st2 = dl_slept st1 @ [4]" "dl_requests st2 = dl_requests st1 + 1"
    by blast
  from a pull_from_last_transient [of net err url dest_dir f2 st2]
  have s3: "fst (pull_from net url dest_dir f2 3 st2) = Raises err"
    "dl_slept (snd (pull_from net url dest_dir f2 3 st2)) = dl_slept st2"
    "dl_requests (snd (pull_from net url dest_dir f2 3 st2)) = dl_requests st2 + 1"
    by (simp_all add: RETRY_LIMIT_def)
  show "fst (pull_file net url dest_dir filename st) = Raises err"
    unfolding pull_file_def s1(1) s2(1) by (simp add: s3 s2(2,3) s1(2,3))
  show "dl_slept (snd (pull_file net url dest_dir filename st)) = dl_slept st @ [2, 4]"
    unfolding pull_file_def s1(1) s2(1) by (simp add: s3 s2(2,3) s1(2,3))
  show "dl_requests (snd (pull_file net url dest_dir filename st)) = dl_requests st + 3"
    unfolding pull_file_def s1(1) s2(1) by (simp add: s3 s2(2,3) s1(2,3))
next
  assume a: "net 1 = Refused (HTTPStatusError code)"
  from a pull_from_status_error [of net 1 code url dest_dir filename st]
  have r: "fst (pull_from net url dest_dir filename 1 st) = Raises (HTTPStatusError code)
       \<and> dl_slept (snd (pull_from net url dest_dir filename 1 st)) = dl_slept st
       \<and> dl_requests (snd (pull_from net url dest_dir filename 1 st)) = dl_requests st + 1"
    by (simp add: RETRY_LIMIT_def)
  show "fst (pull_file net url dest_dir filename st) = Raises (HTTPStatusError code)"
    unfolding pull_file_def using r by simp
  show "dl_slept (snd (pull_file net url dest_dir filename st)) = dl_slept st"
    unfolding pull_file_def using r by simp
  show "dl_requests (snd (pull_file net url dest_dir filename st)) = dl_requests st + 1"
    unfolding pull_file_def using r by simp
next
  assume a: "transient_failure (net 1) \<and> net 2 = Refused (HTTPStatusError code)"
  from a have "\<exists>f1 st1. pull_from net url dest_dir filename 1 st = pull_from net url dest_dir f1 2 st1
      \<and> dl_slept st1 = dl_slept st @ [2] \<and> dl_requests st1 = dl_requests st + 1"
    by (intro pull_from_transient) (simp_all add: RETRY_LIMIT_def INITIAL_BACKOFF_def)
  then obtain f1 st1 where s1: "pull_from net url dest_dir filename 1 st = pull_from net url dest_dir f1 2 st1"
    "dl_slept st1 = dl_slept st @ [2]" "dl_requests st1 = dl_requests st + 1"
    by blast
  from a have n2: "net 2 = Refused (HTTPStatusError code)" by simp
  from n2 pull_from_status_error [of net 2 code url dest_dir f1 st1]
  have r: "fst (pull_from net url dest_dir f1 2 st1) = Raises (HTTPStatusError code)
       \<and> dl_slept (snd (pull_from net url dest_dir f1 2 st1)) = dl_slept st1
       \<and> dl_requests (snd (pull_from net url dest_dir f1 2 st1)) = dl_requests st1 + 1"
    by (simp add: RETRY_LIMIT_def)
  show "fst (pull_file net url dest_dir filename st) = Raises (HTTPStatusError code)"
    unfolding pull_file_def s1(1) using r by (simp add: s1(2,3))
  show "dl_slept (snd (pull_file net url dest_dir filename st)) = dl_slept st @ [2]"
    unfolding pull_file_def s1(1) using r by (simp add: s1(2,3))
  show "dl_requests (snd (pull_file net url dest_dir filename st)) = dl_requests st + 2"
    unfolding pull_file_def s1(1) using r by (simp add: s1(2,3))
next
  assume a: "transient_failure (net 1) \<and> transient_failure (net 2)
      \<and> net 3 = Refused (HTTPStatusError code)"
  from a have "\<exists>f1 st1. pull_from net url dest_dir filename 1 st = pull_from net url dest_dir f1 2 st1
      \<and> dl_slept st1 = dl_slept st @ [2] \<and> dl_requests st1 = dl_requests st + 1"
    by (intro pull_from_transient) (simp_all add: RETRY_LIMIT_def INITIAL_BACKOFF_def)
  then obtain f1 st1 where s1: "pull_from net url dest_dir filename 1 st = pull_from net url dest_dir f1 2 st1"
    "dl_slept st1 = dl_slept st @ [2]" "dl_requests st1 = dl_requests st + 1"
    by blast
  from a have "\<exists>f2 st2. pull_from net url dest_dir f1 2 st1 = pull_from net url dest_dir f2 3 st2
      \<and> dl_slept st2 = dl_slept st1 @ [4] \<and> dl_requests st2 = dl_requests st1 + 1"
    by (intro pull_from_transient) (simp_all add: RETRY_LIMIT_def INITIAL_BACKOFF_def)
  then obtain f2 st2 where s2: "pull_from net url dest_dir f1 2 st1 = pull_from net url dest_dir f2 3 st2"
    "dl_slept st2 = dl_slept st1 @ [4]" "dl_requests st2 = dl_requests st1 + 1"
    by blast
  from a have n3: "net 3 = Refused (HTTPStatusError code)" by simp
  from n3 pull_from_status_error [of net 3 code url dest_dir f2 st2]
  have r: "fst (pull_from net url dest_dir f2 3 st2) = Raises (HTTPStatusError code)
       \<and> dl_slept (snd (pull_from net url dest_dir f2 3 st2)) = dl_slept st2
       \<and> dl_requests (snd (pull_from net url dest_dir f2 3 st2)) = dl_requests st2 + 1"
    by (simp add: RETRY_LIMIT_def)
  show "fst (pull_file net url dest_dir filename st) = Raises (HTTPStatusError code)"
    unfolding pull_file_def s1(1) s2(1) using r by simp
  show "dl_slept (snd (pull_file net url dest_dir filename st)) = dl_slept st @ [2, 4]"
    unfolding pull_file_def s1(1) s2(1) using r by (simp add: s1(2,3) s2(2,3))
  show "dl_requests (snd (pull_file net url dest_dir filename st)) = dl_requests st + 3"
    unfolding pull_file_def s1(1) s2(1) using r by (simp add: s1(2,3) s2(2,3))
qed

theorem pull_file_retry_discipline_witness:
  "(transient_failure (net_down 1) \<and> transient_failure (net_down 2)
      \<and> failure_of (net_down 3) = Some ConnectError \<and> is_transient ConnectError)
   \<and> fst (pull_file net_down ''u'' ''d'' (Some ''f'') fresh_dl) = Raises ConnectError
   \<and> dl_slept (snd (pull_file net_down ''u'' ''d'' (Some ''f'') fresh_dl)) = [2, 4]
   \<and> dl_requests (snd (pull_file net_down ''u'' ''d'' (Some ''f'') fresh_dl)) = 3
   \<and> net_forbidden 1 = Refused (HTTPStatusError 403)
   \<and> fst (pull_file net_forbidden ''u'' ''d'' (Some ''f'') fresh_dl) = Raises (HTTPStatusError 403)
   \<and> dl_slept (snd (pull_file net_forbidden ''u'' ''d'' (Some ''f'') fresh_dl)) = []
   \<and> dl_requests (snd (pull_file net_forbidden ''u'' ''d'' (Some ''f'') fresh_dl)) = 1
   \<and> (transient_failure (net_reset_then_missing 1)
        \<and> net_reset_then_missing 2 = Refused (HTTPStatusError 404))
   \<and> fst (pull_file net_reset_then_missing ''u'' ''d'' (Some ''f'') fresh_dl) = Raises (HTTPStatusError 404)
   \<and> dl_slept (snd (pull_file net_reset_then_missing ''u'' ''d'' (Some ''f'') fresh_dl)) = [2]
   \<and> dl_requests (snd (pull_file net_reset_then_missing ''u'' ''d'' (Some ''f'') fresh_dl)) = 2
   \<and> (transient_failure (net_flaky_then_gone 1) \<and> transient_failure (net_flaky_then_gone 2)
        \<and> net_flaky_then_gone 3 = Refused (HTTPStatusError 410))
   \<and> fst (pull_file net_flaky_then_gone ''u'' ''d'' (Some ''f'') fresh_dl) = Raises (HTTPStatusError 410)
   \<and> dl_slept (snd (pull_file net_flaky_then_gone ''u'' ''d'' (Some ''f'') fresh_dl)) = [2, 4]
   \<and> dl_requests (snd (pull_file net_flaky_then_gone ''u'' ''d'' (Some ''f'') fresh_dl)) = 3"
  using pull_file_retry_discipline [of net_down ConnectError "''u''" "''d''" "Some ''f''" fresh_dl 0]
    pull_file_retry_discipline [of net_forbidden ConnectError "''u''" "''d''" "Some ''f''" fresh_dl 403]
    pull_file_retry_discipline [of net_reset_then_missing ConnectError "''u''" "''d''" "Some ''f''" fresh_dl 404]
    pull_file_retry_discipline [of net_flaky_then_gone ConnectError "''u''" "''d''" "Some ''f''" fresh_dl 410]
  by (simp add: net_down_def net_forbidden_def net_reset_then_missing_def net_flaky_then_gone_def
      fresh_dl_def transient_failure_def failure_of_def is_transient_def)

section \<open>The size-cap gate\<close>

lemma process_file_past_size_gate:
  assumes "reaches_size_gate cfg sn finfo st" and "\<not> over_cap cfg size_cap finfo"
  shows "process_file cfg src sn size_cap hit meta finfo st
           = attempt_download cfg src sn hit meta finfo st"
  using assms by (simp add: process_file_gates reaches_size_gate_def)

lemma attempt_download_saves:
  assumes "\<not> url_recorded (session st) sn (fi_download_url finfo)"
    and "\<not> get_restricted finfo"
    and "pulled cfg src sn hit meta finfo = Saved local content"
    and "\<not> hash_recorded (session st) (sha256_hex cfg content)"
  shows "attempt_download cfg src sn hit meta finfo st =
           st\<lparr>disk := (disk st)(local \<mapsto> content),
              session := session st @ [stored_download cfg sn hit meta finfo local content],
              n_downloaded := n_downloaded st + 1\<rparr>"
  using assms by (simp add: attempt_download_gates)

text \<open>
  Claim C2, for a file that reaches the size-cap gate (its format is recognised and no
  record exists for its source and download URL): with a non-zero cap a file in a
  qualitative-analysis format goes on to the restriction gate and the download whatever
  size it declares; a file in another format whose declared size equals the cap goes on
  as well; a file in another format whose declared size exceeds the cap by one byte or
  more is stored as a metadata-only record whose notes are \<^verbatim>\<open>oversized (N MB)\<close>, \<open>N\<close>
  the size in MB, and the skip counter grows by one, nothing else changing; with a cap of
  0 every file goes on.
\<close>

theorem size_cap_boundary:
  assumes "reaches_size_gate cfg sn finfo st"
  shows "(size_cap \<noteq> 0 \<and> is_qda_file cfg (fi_name finfo) finfo \<longrightarrow>
            process_file cfg src sn size_cap hit meta finfo st
              = attempt_download cfg src sn hit meta finfo st)
       \<and> (\<not> is_qda_file cfg (fi_name finfo) finfo \<and> fi_size finfo = Some size_cap \<longrightarrow>
            process_file cfg src sn size_cap hit meta finfo st
              = attempt_download cfg src sn hit meta finfo st)
       \<and> (size_cap \<noteq> 0 \<and> \<not> is_qda_file cfg (fi_name finfo) finfo
            \<and> fi_size finfo = Some n \<and> size_cap + 1 \<le> n \<longrightarrow>
            process_file cfg src sn size_cap hit meta finfo st
              = st\<lparr>session := session st @ [gate_record cfg sn hit meta finfo (oversized_notes n)],
                   n_skipped := n_skipped st + 1\<rparr>
            \<and> local_path (gate_record cfg sn hit meta finfo (oversized_notes n)) = None
            \<and> row_notes (gate_record cfg sn hit meta finfo (oversized_notes n))
                = Some (''oversized ('' @ mb_str n @ '' MB)''))
       \<and> (size_cap = 0 \<longrightarrow>
            process_file cfg src sn size_cap hit meta finfo st
              = attempt_download cfg src sn hit meta finfo st)"
proof -
  have past: "\<not> over_cap cfg size_cap finfo \<Longrightarrow>
      process_file cfg src sn size_cap hit meta finfo st
        = attempt_download cfg src sn hit meta finfo st"
    using assms by (rule process_file_past_size_gate)
  have c1: "size_cap \<noteq> 0 \<and> is_qda_file cfg (fi_name finfo) finfo \<longrightarrow>
      process_file cfg src sn size_cap hit meta finfo st
        = attempt_download cfg src sn hit meta finfo st"
  proof
    assume "size_cap \<noteq> 0 \<and> is_qda_file cfg (fi_name finfo) finfo"
    then have "\<not> over_cap cfg size_cap finfo" by (simp add: over_cap_def)
    then show "process_file cfg src sn size_cap hit meta finfo st
        = attempt_download cfg src sn hit meta finfo st"
      by (rule past)
  qed
  have c2: "\<not> is_qda_file cfg (fi_name finfo) finfo \<and> fi_size finfo = Some size_cap \<longrightarrow>
      process_file cfg src sn size_cap hit meta finfo st
        = attempt_download cfg src sn hit meta finfo st"
  proof
    assume "\<not> is_qda_file cfg (fi_name finfo) finfo \<and> fi_size finfo = Some size_cap"
    then have "\<not> over_cap cfg size_cap finfo" by (simp add: over_cap_def declared_bytes_def)
    then show "process_file cfg src sn size_cap hit meta finfo st
        = attempt_download cfg src sn hit meta finfo st"
      by (rule past)
  qed
  have c3: "size_cap \<noteq> 0 \<and> \<not> is_qda_file cfg (fi_name finfo) finfo
      \<and> fi_size finfo = Some n \<and> size_cap + 1 \<le> n \<longrightarrow>
      process_file cfg src sn size_cap hit meta finfo st
        = st\<lparr>session := session st @ [gate_record cfg sn hit meta finfo (oversized_notes n)],
             n_skipped := n_skipped st + 1\<rparr>
      \<and> local_path (gate_record cfg sn hit meta finfo (oversized_notes n)) = None
      \<and> row_notes (gate_record cfg sn hit meta finfo (oversized_notes n))
          = Some (''oversized ('' @ mb_str n @ '' MB)'')"
  proof
    assume a: "size_cap \<noteq> 0 \<and> \<not> is_qda_file cfg (fi_name finfo) finfo
      \<and> fi_size finfo = Some n \<and> size_cap + 1 \<le> n"
    then have "over_cap cfg size_cap finfo" and "declared_bytes finfo = n"
      by (simp_all add: over_cap_def declared_bytes_def)
    with assms show "process_file cfg src sn size_cap hit meta finfo st
        = st\<lparr>session := session st @ [gate_record cfg sn hit meta finfo (oversized_notes n)],
             n_skipped := n_skipped st + 1\<rparr>
        \<and> local_path (gate_record cfg sn hit meta finfo (oversized_notes n)) = None
        \<and> row_notes (gate_record cfg sn hit meta finfo (oversized_notes n))
            = Some (''oversized ('' @ mb_str n @ '' MB)'')"
      by (simp add: process_file_gates reaches_size_gate_def gate_record_def oversized_notes_def)
  qed
  have c4: "size_cap = 0 \<longrightarrow>
      process_file cfg src sn size_cap hit meta finfo st
        = attempt_download cfg src sn hit meta finfo st"
  proof
    assume "size_cap = 0"
    then have "\<not> over_cap cfg size_cap finfo" by (simp add: over_cap_def)
    then show "process_file cfg src sn size_cap hit meta finfo st
        = attempt_download cfg src sn hit meta finfo st"
      by (rule past)
  qed
  from c1 c2 c3 c4 show ?thesis by blast
qed

theorem size_cap_boundary_witness:
  "reaches_size_gate ex_cfg ''qdr'' (mk_file ''project.qdpx'' ''f/qda'' (Some 209715200) False) empty_state
   \<and> DEFAULT_SIZE_CAP \<noteq> 0
   \<and> is_qda_file ex_cfg ''project.qdpx'' (mk_file ''project.qdpx'' ''f/qda'' (Some 209715200) False)
   \<and> process_file ex_cfg ex_source ''qdr'' DEFAULT_SIZE_CAP (mk_hit ''ds/A'') ex_meta
       (mk_file ''project.qdpx'' ''f/qda'' (Some 209715200) False) empty_state
     = attempt_download ex_cfg ex_source ''qdr'' (mk_hit ''ds/A'') ex_meta
       (mk_file ''project.qdpx'' ''f/qda'' (Some 209715200) False) empty_state
   \<and> n_downloaded (process_file ex_cfg ex_source ''qdr'' DEFAULT_SIZE_CAP (mk_hit ''ds/A'') ex_meta
       (mk_file ''project.qdpx'' ''f/qda'' (Some 209715200) False) empty_state) = 1
   \<and> reaches_size_gate ex_cfg ''qdr'' (mk_file ''notes.pdf'' ''f/pdf'' (Some 104857600) False) empty_state
   \<and> \<not> is_qda_file ex_cfg ''notes.pdf'' (mk_file ''notes.pdf'' ''f/pdf'' (Some 104857600) False)
   \<and> fi_size (mk_file ''notes.pdf'' ''f/pdf'' (Some 104857600) False) = Some DEFAULT_SIZE_CAP
   \<and> n_downloaded (process_file ex_cfg ex_source ''qdr'' DEFAULT_SIZE_CAP (mk_hit ''ds/A'') ex_meta
       (mk_file ''notes.pdf'' ''f/pdf'' (Some 104857600) False) empty_state) = 1
   \<and> reaches_size_gate ex_cfg ''qdr'' (mk_file ''scan.pdf'' ''f/scan'' (Some 104857601) False) empty_state
   \<and> \<not> is_qda_file ex_cfg ''scan.pdf'' (mk_file ''scan.pdf'' ''f/scan'' (Some 104857601) False)
   \<and> DEFAULT_SIZE_CAP + 1 \<le> 104857601
   \<and> map row_notes (session (process_file ex_cfg ex_source ''qdr'' DEFAULT_SIZE_CAP (mk_hit ''ds/A'')
       ex_meta (mk_file ''scan.pdf'' ''f/scan'' (Some 104857601) False) empty_state))
     = [Some ''oversized (100 MB)'']
   \<and> n_skipped (process_file ex_cfg ex_source ''qdr'' DEFAULT_SIZE_CAP (mk_hit ''ds/A'')
       ex_meta (mk_file ''scan.pdf'' ''f/scan'' (Some 104857601) False) empty_state) = 1
   \<and> n_downloaded (process_file ex_cfg ex_source ''qdr'' 0 (mk_hit ''ds/A'')
       ex_meta (mk_file ''scan.pdf'' ''f/scan'' (Some 104857601) False) empty_state) = 1"
proof -
  let ?qda = "mk_file ''project.qdpx'' ''f/qda'' (Some 209715200) False"
  let ?pdf = "mk_file ''notes.pdf'' ''f/pdf'' (Some 104857600) False"
  let ?scan = "mk_file ''scan.pdf'' ''f/scan'' (Some 104857601) False"
  let ?run = "\<lambda>cap f. process_file ex_cfg ex_source ''qdr'' cap (mk_hit ''ds/A'') ex_meta f empty_state"
  let ?dl = "\<lambda>f. attempt_download ex_cfg ex_source ''qdr'' (mk_hit ''ds/A'') ex_meta f empty_state"
  have r1: "reaches_size_gate ex_cfg ''qdr'' ?qda empty_state" by code_simp
  have r2: "reaches_size_gate ex_cfg ''qdr'' ?pdf empty_state" by code_simp
  have r3: "reaches_size_gate ex_cfg ''qdr'' ?scan empty_state" by code_simp
  have q1: "DEFAULT_SIZE_CAP \<noteq> 0 \<and> is_qda_file ex_cfg (fi_name ?qda) ?qda" by code_simp
  have q2: "\<not> is_qda_file ex_cfg (fi_name ?pdf) ?pdf \<and> fi_size ?pdf = Some DEFAULT_SIZE_CAP"
    by code_simp
  have q3: "DEFAULT_SIZE_CAP \<noteq> 0 \<and> \<not> is_qda_file ex_cfg (fi_name ?scan) ?scan
      \<and> fi_size ?scan = Some 104857601 \<and> DEFAULT_SIZE_CAP + 1 \<le> 104857601"
    by code_simp
  have n1: "fi_name ?qda = ''project.qdpx''" and n2: "fi_name ?pdf = ''notes.pdf''"
    and n3: "fi_name ?scan = ''scan.pdf''"
    by (simp_all add: mk_file_def)
  from size_cap_boundary [OF r1, where size_cap = DEFAULT_SIZE_CAP and src = ex_source
      and hit = "mk_hit ''ds/A''" and meta = ex_meta and n = 0] q1
  have c1: "?run DEFAULT_SIZE_CAP ?qda = ?dl ?qda" by blast
  from size_cap_boundary [OF r2, where size_cap = DEFAULT_SIZE_CAP and src = ex_source
      and hit = "mk_hit ''ds/A''" and meta = ex_meta and n = 0] q2
  have c2: "?run DEFAULT_SIZE_CAP ?pdf = ?dl ?pdf" by blast
  from size_cap_boundary [OF r3, where size_cap = DEFAULT_SIZE_CAP and src = ex_source
      and hit = "mk_hit ''ds/A''" and meta = ex_meta and n = 104857601] q3
  have c3: "?run DEFAULT_SIZE_CAP ?scan
      = empty_state\<lparr>session := session empty_state @
            [gate_record ex_cfg ''qdr'' (mk_hit ''ds/A'') ex_meta ?scan (oversized_notes 104857601)],
          n_skipped := n_skipped empty_state + 1\<rparr>" by blast
  from size_cap_boundary [OF r3, where size_cap = 0 and src = ex_source
      and hit = "mk_hit ''ds/A''" and meta = ex_meta and n = 0]
  have c4: "?run 0 ?scan = ?dl ?scan" by blast
  have d1: "n_downloaded (?dl ?qda) = 1" by code_simp
  have d2: "n_downloaded (?dl ?pdf) = 1" by code_simp
  have d4: "n_downloaded (?dl ?scan) = 1" by code_simp
  have o3: "oversized_notes 104857601 = ''oversized (100 MB)''" by code_simp
  have s3: "n_skipped empty_state = 0" "session empty_state = []"
    by (simp_all add: empty_state_def)
  from c3 have n3': "map row_notes (session (?run DEFAULT_SIZE_CAP ?scan)) = [Some ''oversized (100 MB)'']"
    and k3: "n_skipped (?run DEFAULT_SIZE_CAP ?scan) = 1"
    by (simp_all add: o3 s3 gate_record_def)
  show ?thesis
    using r1 r2 r3 q1 q2 q3 c1 c2 c4 d1 d2 d4 n3' k3 by (simp add: n1 n2 n3)
qed

section \<open>The restriction gate and download errors\<close>

text \<open>
  Claim C5, for a file that reaches the restriction gate (its format is recognised, no
  record exists for its source and download URL, and the size-cap gate lets it pass):
  (i) if the source declared it restricted, a metadata-only record with the default notes
  is stored and the restricted counter grows by one; the result does not depend on the
  adapter and the disk is as before, so no download is attempted; (ii) if the download
  raises an HTTP status error with code 403, the result is the same as in (i); (iii) if
  the download raises anything else, the state is as before: no record, no counter; and
  the loop goes on with the next file from the state the file left.
\<close>

theorem restriction_and_download_errors:
  assumes "reaches_restriction_gate cfg sn size_cap finfo st"
  shows "(get_restricted finfo \<longrightarrow>
            process_file cfg src sn size_cap hit meta finfo st
              = st\<lparr>session := session st @ [gate_record cfg sn hit meta finfo default_notes],
                   n_restricted := n_restricted st + 1\<rparr>)
       \<and> (\<not> get_restricted finfo
            \<and> pulled cfg src sn hit meta finfo = Raised (HTTPStatusError 403) \<longrightarrow>
            process_file cfg src sn size_cap hit meta finfo st
              = st\<lparr>session := session st @ [gate_record cfg sn hit meta finfo default_notes],
                   n_restricted := n_restricted st + 1\<rparr>)
       \<and> (\<not> get_restricted finfo \<and> pulled cfg src sn hit meta finfo = Raised err
            \<and> err \<noteq> HTTPStatusError 403 \<longrightarrow>
            process_file cfg src sn size_cap hit meta finfo st = st)
       \<and> local_path (gate_record cfg sn hit meta finfo default_notes) = None
       \<and> process_files cfg src sn size_cap hit meta (finfo # rest) st
           = process_files cfg src sn size_cap hit meta rest
               (process_file cfg src sn size_cap hit meta finfo st)"
proof -
  from assms have fresh: "\<not> url_recorded (session st) sn (fi_download_url finfo)"
    and past: "process_file cfg src sn size_cap hit meta finfo st
                 = attempt_download cfg src sn hit meta finfo st"
    by (simp_all add: reaches_restriction_gate_def reaches_size_gate_def process_file_gates)
  show ?thesis
    unfolding past
    by (simp add: attempt_download_gates [OF fresh] gate_record_def process_files_Cons past)
qed

theorem restriction_and_download_errors_witness:
  "reaches_restriction_gate ex_cfg ''qdr'' DEFAULT_SIZE_CAP
     (mk_file ''a.pdf'' ''f/a'' (Some 10) True) empty_state
   \<and> get_restricted (mk_file ''a.pdf'' ''f/a'' (Some 10) True)
   \<and> reaches_restriction_gate ex_cfg ''qdr'' DEFAULT_SIZE_CAP
       (mk_file ''b.pdf'' ''f/forbidden'' (Some 10) False) empty_state
   \<and> \<not> get_restricted (mk_file ''b.pdf'' ''f/forbidden'' (Some 10) False)
   \<and> pulled ex_cfg ex_source ''qdr'' (mk_hit ''ds/A'') ex_meta
       (mk_file ''b.pdf'' ''f/forbidden'' (Some 10) False) = Raised (HTTPStatusError 403)
   \<and> reaches_restriction_gate ex_cfg ''qdr'' DEFAULT_SIZE_CAP
       (mk_file ''c.pdf'' ''f/missing'' (Some 10) False) empty_state
   \<and> \<not> get_restricted (mk_file ''c.pdf'' ''f/missing'' (Some 10) False)
   \<and> pulled ex_cfg ex_source ''qdr'' (mk_hit ''ds/A'') ex_meta
       (mk_file ''c.pdf'' ''f/missing'' (Some 10) False) = Raised (HTTPStatusError 404)
   \<and> HTTPStatusError 404 \<noteq> HTTPStatusError 403
   \<and> n_restricted (process_file ex_cfg ex_source ''qdr'' DEFAULT_SIZE_CAP (mk_hit ''ds/A'') ex_meta
       (mk_file ''a.pdf'' ''f/a'' (Some 10) True) empty_state) = 1
   \<and> map row_notes (session (process_file ex_cfg ex_source ''qdr'' DEFAULT_SIZE_CAP (mk_hit ''ds/A'')
       ex_meta (mk_file ''a.pdf'' ''f/a'' (Some 10) True) empty_state)) = [Some ''access restricted'']
   \<and> n_restricted (process_file ex_cfg ex_source ''qdr'' DEFAULT_SIZE_CAP (mk_hit ''ds/A'') ex_meta
       (mk_file ''b.pdf'' ''f/forbidden'' (Some 10) False) empty_state) = 1
   \<and> map row_notes (session (process_file ex_cfg ex_source ''qdr'' DEFAULT_SIZE_CAP (mk_hit ''ds/A'')
       ex_meta (mk_file ''b.pdf'' ''f/forbidden'' (Some 10) False) empty_state))
     = [Some ''access restricted'']
   \<and> process_file ex_cfg ex_source ''qdr'' DEFAULT_SIZE_CAP (mk_hit ''ds/A'') ex_meta
       (mk_file ''c.pdf'' ''f/missing'' (Some 10) False) empty_state = empty_state"
proof -
  let ?a = "mk_file ''a.pdf'' ''f/a'' (Some 10) True"
  let ?b = "mk_file ''b.pdf'' ''f/forbidden'' (Some 10) False"
  let ?c = "mk_file ''c.pdf'' ''f/missing'' (Some 10) False"
  let ?run = "\<lambda>f. process_file ex_cfg ex_source ''qdr'' DEFAULT_SIZE_CAP (mk_hit ''ds/A'') ex_meta f
                 empty_state"
  let ?rec = "\<lambda>f. gate_record ex_cfg ''qdr'' (mk_hit ''ds/A'') ex_meta f default_notes"
  have ra: "reaches_restriction_gate ex_cfg ''qdr'' DEFAULT_SIZE_CAP ?a empty_state" by code_simp
  have rb: "reaches_restriction_gate ex_cfg ''qdr'' DEFAULT_SIZE_CAP ?b empty_state" by code_simp
  have rc: "reaches_restriction_gate ex_cfg ''qdr'' DEFAULT_SIZE_CAP ?c empty_state" by code_simp
  have ha: "get_restricted ?a" by code_simp
  have hb: "\<not> get_restricted ?b
      \<and> pulled ex_cfg ex_source ''qdr'' (mk_hit ''ds/A'') ex_meta ?b = Raised (HTTPStatusError 403)"
    by code_simp
  have hc: "\<not> get_restricted ?c
      \<and> pulled ex_cfg ex_source ''qdr'' (mk_hit ''ds/A'') ex_meta ?c = Raised (HTTPStatusError 404)
      \<and> HTTPStatusError 404 \<noteq> HTTPStatusError 403"
    by code_simp
  from restriction_and_download_errors [OF ra, where src = ex_source and hit = "mk_hit ''ds/A''"
      and meta = ex_meta and err = OtherError and rest = "[]"] ha
  have ca: "?run ?a = empty_state\<lparr>session := session empty_state @ [?rec ?a],
      n_restricted := n_restricted empty_state + 1\<rparr>" by blast
  from restriction_and_download_errors [OF rb, where src = ex_source and hit = "mk_hit ''ds/A''"
      and meta = ex_meta and err = OtherError and rest = "[]"] hb
  have cb: "?run ?b = empty_state\<lparr>session := session empty_state @ [?rec ?b],
      n_restricted := n_restricted empty_state + 1\<rparr>" by blast
  from restriction_and_download_errors [OF rc, where src = ex_source and hit = "mk_hit ''ds/A''"
      and meta = ex_meta and err = "HTTPStatusError 404" and rest = "[]"] hc
  have cc: "?run ?c = empty_state" by blast
  have e: "n_restricted empty_state = 0" "session empty_state = []"
    by (simp_all add: empty_state_def)
  have na: "n_restricted (?run ?a) = 1" "map row_notes (session (?run ?a)) = [Some ''access restricted'']"
    unfolding ca by (simp_all add: e gate_record_def default_notes_def)
  have nb: "n_restricted (?run ?b) = 1" "map row_notes (session (?run ?b)) = [Some ''access restricted'']"
    unfolding cb by (simp_all add: e gate_record_def default_notes_def)
  show ?thesis
    using ra rb rc ha hb hc na nb cc by simp
qed

section \<open>The rows that the pipeline inserts\<close>

lemma extends_by_refl: "extends_by P rows rows"
  by (simp add: extends_by_def)

lemma extends_by_single: "P r \<Longrightarrow> extends_by P rows (rows @ [r])"
  by (auto simp: extends_by_def)

lemma extends_by_trans:
  assumes "extends_by P a b" and "extends_by P b c"
  shows "extends_by P a c"
proof -
  from assms obtain n1 n2 where "b = a @ n1" "\<forall>r\<in>set n1. P r" "c = b @ n2" "\<forall>r\<in>set n2. P r"
    by (auto simp: extends_by_def)
  then have "c = a @ (n1 @ n2)" and "\<forall>r\<in>set (n1 @ n2). P r" by auto
  then show ?thesis unfolding extends_by_def by blast
qed

lemma extends_by_subset: "extends_by P a b \<Longrightarrow> set a \<subseteq> set b"
  by (auto simp: extends_by_def)

lemma metadata_record_sound:
  "note = default_notes \<or> explains_reason (Some note) \<Longrightarrow>
   row_sound (metadata_record sn hit meta finfo fname ext q folder note)"
  by (auto simp: row_sound_def)

lemma downloaded_record_sound:
  "\<not> get_restricted finfo \<Longrightarrow>
   row_sound (downloaded_record cfg sn hit meta finfo fname ext q folder local digest)"
  by (simp add: row_sound_def)

lemma explains_oversized: "explains_reason (Some (oversized_notes n))"
  by (simp add: explains_reason_def oversized_notes_def)

lemma explains_irrelevant: "explains_reason (Some ''irrelevant file type'')"
  by (simp add: explains_reason_def)

lemma store_metadata_record_extends:
  assumes "note = default_notes \<or> explains_reason (Some note)"
  shows "extends_by row_sound rows
           (store_metadata_record rows sn hit meta finfo fname ext q folder note)"
  using store_metadata_record_cases [of rows sn hit meta finfo fname ext q folder "note"]
    metadata_record_sound [OF assms, of sn hit meta finfo fname ext q folder]
  by (auto intro: extends_by_refl extends_by_single)

lemma attempt_download_extends:
  "extends_by row_sound (session st) (session (attempt_download cfg src sn hit meta finfo st))"
proof (cases "get_restricted finfo")
  case True
  then show ?thesis
    by (simp add: attempt_download_def Let_def store_metadata_record_extends)
next
  case False
  show ?thesis
  proof (cases "src_pull_file src (fi_download_url finfo)
                  (path_parent (dest_path_of cfg sn hit meta finfo)) (fi_name finfo)")
    case (Raised err)
    with False show ?thesis
      by (cases err)
        (simp_all add: attempt_download_def Let_def store_metadata_record_extends extends_by_refl)
  next
    case (Saved local content)
    with False show ?thesis
      by (simp add: attempt_download_def Let_def extends_by_refl extends_by_single
          downloaded_record_sound)
  qed
qed

lemma process_file_extends:
  "extends_by row_sound (session st) (session (process_file cfg src sn size_cap hit meta finfo st))"
  by (simp add: process_file_def Let_def store_metadata_record_extends explains_oversized
      explains_irrelevant extends_by_refl attempt_download_extends)

lemma process_files_extends:
  "extends_by row_sound (session st)
     (session (process_files cfg src sn size_cap hit meta files st))"
proof (induction files arbitrary: st)
  case Nil
  show ?case by (simp add: process_files_Nil extends_by_refl)
next
  case (Cons finfo files)
  show ?case
    unfolding process_files_Cons
    by (rule extends_by_trans [OF process_file_extends Cons])
qed

lemma process_hit_extends:
  "extends_by row_sound (session st) (session (process_hit cfg src sn size_cap hit st))"
  by (simp add: process_hit_def extends_by_refl process_files_extends split: option.splits)

lemma foldl_process_hit_extends:
  "extends_by row_sound (session st)
     (session (foldl (\<lambda>acc hit. process_hit cfg src sn size_cap hit acc) st hits))"
proof (induction hits arbitrary: st)
  case Nil
  show ?case by (simp add: extends_by_refl)
next
  case (Cons hit hits)
  show ?case
    using extends_by_trans [OF process_hit_extends Cons] by simp
qed

lemma process_hits_extends:
  "extends_by row_sound (session st) (session (process_hits cfg src sn hits st size_cap))"
  using foldl_process_hit_extends
    [of "st\<lparr>n_downloaded := 0, n_restricted := 0, n_skipped := 0\<rparr>" cfg src sn size_cap hits]
  by (simp add: process_hits_def)

lemma row_sound_shapes:
  assumes "row_sound r"
  shows "(shape_downloaded r \<or> shape_restricted r \<or> shape_metadata_only r)
       \<and> \<not> (shape_downloaded r \<and> shape_restricted r)
       \<and> \<not> (shape_downloaded r \<and> shape_metadata_only r)
       \<and> (\<not> shape_downloaded r \<and> \<not> shape_restricted r \<longrightarrow> shape_metadata_only r)
       \<and> (local_path r \<noteq> None \<longrightarrow> shape_downloaded r \<and> \<not> restricted r)"
  using assms
  by (auto simp: row_sound_def shape_downloaded_def shape_restricted_def shape_metadata_only_def
      mentions_restriction_def split: option.splits)

text \<open>
  Claim C6, as stated: every record the pipeline persists has exactly one of three
  mutually exclusive shapes: downloaded, restricted (no local path; the restricted flag
  set or the default restriction notes), metadata-only (no local path; notes that explain
  the reason). A file that the source flags restricted and whose format is not recognised
  is stopped by the format gate, before the restriction gate: its record carries the
  restricted flag together with the notes \<^verbatim>\<open>irrelevant file type\<close>, and has two shapes.
\<close>

theorem record_shapes_counterexample:
  "shape_restricted (last (session (process_hits ex_cfg ex_source ''qdr'' [mk_hit ''ds/A'']
       empty_state DEFAULT_SIZE_CAP)))
   \<and> shape_metadata_only (last (session (process_hits ex_cfg ex_source ''qdr'' [mk_hit ''ds/A'']
       empty_state DEFAULT_SIZE_CAP)))
   \<and> shape_count (last (session (process_hits ex_cfg ex_source ''qdr'' [mk_hit ''ds/A'']
       empty_state DEFAULT_SIZE_CAP))) \<noteq> 1"
  by code_simp

text \<open>
  Claim C6, amended: every record the pipeline persists has at least one of the three
  shapes; the downloaded shape (a local path, and then a content hash, notes that do not
  mention restriction and no restricted flag) excludes the other two; a record that is
  neither downloaded nor restricted is metadata-only, with notes that explain the reason.
  The restricted and the metadata-only shape are not exclusive. Records created through
  the metadata-only writer always have a null local path and no content hash.
\<close>

theorem record_shapes:
  "extends_by
     (\<lambda>r. (shape_downloaded r \<or> shape_restricted r \<or> shape_metadata_only r)
          \<and> \<not> (shape_downloaded r \<and> shape_restricted r)
          \<and> \<not> (shape_downloaded r \<and> shape_metadata_only r)
          \<and> (\<not> shape_downloaded r \<and> \<not> shape_restricted r \<longrightarrow> shape_metadata_only r)
          \<and> (local_path r \<noteq> None \<longrightarrow> shape_downloaded r \<and> \<not> restricted r))
     (session st) (session (process_hits cfg src sn hits st size_cap))
   \<and> extends_by (\<lambda>r. local_path r = None \<and> file_hash r = None) rows
       (store_metadata_record rows sn hit meta finfo fname ext q folder note)"
proof
  from process_hits_extends [of st cfg src sn hits size_cap]
  obtain new where n: "session (process_hits cfg src sn hits st size_cap) = session st @ new"
    "\<forall>r\<in>set new. row_sound r"
    by (auto simp: extends_by_def)
  from n(2) have "\<forall>r\<in>set new. (shape_downloaded r \<or> shape_restricted r \<or> shape_metadata_only r)
          \<and> \<not> (shape_downloaded r \<and> shape_restricted r)
          \<and> \<not> (shape_downloaded r \<and> shape_metadata_only r)
          \<and> (\<not> shape_downloaded r \<and> \<not> shape_restricted r \<longrightarrow> shape_metadata_only r)
          \<and> (local_path r \<noteq> None \<longrightarrow> shape_downloaded r \<and> \<not> restricted r)"
    using row_sound_shapes by blast
  with n(1) show "extends_by
     (\<lambda>r. (shape_downloaded r \<or> shape_restricted r \<or> shape_metadata_only r)
          \<and> \<not> (shape_downloaded r \<and> shape_restricted r)
          \<and> \<not> (shape_downloaded r \<and> shape_metadata_only r)
          \<and> (\<not> shape_downloaded r \<and> \<not> shape_restricted r \<longrightarrow> shape_metadata_only r)
          \<and> (local_path r \<noteq> None \<longrightarrow> shape_downloaded r \<and> \<not> restricted r))
     (session st) (session (process_hits cfg src sn hits st size_cap))"
    unfolding extends_by_def by blast
next
  show "extends_by (\<lambda>r. local_path r = None \<and> file_hash r = None) rows
       (store_metadata_record rows sn hit meta finfo fname ext q folder note)"
  proof (rule disjE [OF store_metadata_record_cases [of rows sn hit meta finfo fname ext q folder "note"]])
    assume "store_metadata_record rows sn hit meta finfo fname ext q folder note = rows"
    then show ?thesis by (simp add: extends_by_refl)
  next
    assume "store_metadata_record rows sn hit meta finfo fname ext q folder note
              = rows @ [metadata_record sn hit meta finfo fname ext q folder note]"
    then show ?thesis by (simp add: extends_by_single)
  qed
qed

theorem record_shapes_witness:
  "extends_by
     (\<lambda>r. (shape_downloaded r \<or> shape_restricted r \<or> shape_metadata_only r)
          \<and> \<not> (shape_downloaded r \<and> shape_restricted r)
          \<and> \<not> (shape_downloaded r \<and> shape_metadata_only r)
          \<and> (\<not> shape_downloaded r \<and> \<not> shape_restricted r \<longrightarrow> shape_metadata_only r)
          \<and> (local_path r \<noteq> None \<longrightarrow> shape_downloaded r \<and> \<not> restricted r))
     (session empty_state)
     (session (process_hits ex_cfg ex_source ''qdr'' [mk_hit ''ds/A''] empty_state DEFAULT_SIZE_CAP))
   \<and> map shape_downloaded (session (process_hits ex_cfg ex_source ''qdr'' [mk_hit ''ds/A'']
       empty_state DEFAULT_SIZE_CAP)) = [True, False]
   \<and> map shape_restricted (session (process_hits ex_cfg ex_source ''qdr'' [mk_hit ''ds/A'']
       empty_state DEFAULT_SIZE_CAP)) = [False, True]"
proof -
  have "map shape_downloaded (session (process_hits ex_cfg ex_source ''qdr'' [mk_hit ''ds/A'']
       empty_state DEFAULT_SIZE_CAP)) = [True, False]"
    by code_simp
  moreover have "map shape_restricted (session (process_hits ex_cfg ex_source ''qdr''
       [mk_hit ''ds/A''] empty_state DEFAULT_SIZE_CAP)) = [False, True]"
    by code_simp
  ultimately show ?thesis
    using record_shapes [where st = empty_state and cfg = ex_cfg and src = ex_source
        and sn = "''qdr''" and hits = "[mk_hit ''ds/A'']" and size_cap = DEFAULT_SIZE_CAP
        and rows = "[]" and hit = "mk_hit ''ds/A''" and meta = ex_meta
        and finfo = "mk_file ''codebook.zip'' ''f/zip'' (Some 10) True"
        and fname = "''codebook.zip''" and ext = "''.zip''" and q = False and folder = None]
    by blast
qed

section \<open>Content hashes of downloaded records\<close>

lemma downloaded_hashes_append_meta:
  "local_path r = None \<Longrightarrow> downloaded_hashes (rows @ [r]) = downloaded_hashes rows"
  by (simp add: downloaded_hashes_def)

lemma downloaded_hashes_store:
  "downloaded_hashes (store_metadata_record rows sn hit meta finfo fname ext q folder note)
     = downloaded_hashes rows"
  by (simp add: store_metadata_record_def downloaded_hashes_append_meta)

lemma downloaded_hashes_fresh:
  "\<not> list_ex (\<lambda>r. file_hash r = Some d) rows \<Longrightarrow> Some d \<notin> set (downloaded_hashes rows)"
  by (auto simp: downloaded_hashes_def list_ex_iff)

lemma attempt_download_hashes:
  assumes "distinct (downloaded_hashes (session st))"
  shows "distinct (downloaded_hashes (session (attempt_download cfg src sn hit meta finfo st)))"
proof (cases "get_restricted finfo")
  case True
  with assms show ?thesis
    by (simp add: attempt_download_def Let_def downloaded_hashes_store)
next
  case False
  show ?thesis
  proof (cases "src_pull_file src (fi_download_url finfo)
                  (path_parent (dest_path_of cfg sn hit meta finfo)) (fi_name finfo)")
    case (Raised err)
    with False assms show ?thesis
      by (cases err) (simp_all add: attempt_download_def Let_def downloaded_hashes_store)
  next
    case (Saved local content)
    show ?thesis
    proof (cases "list_ex (\<lambda>r. file_hash r = Some (sha256_hex cfg content)) (session st)")
      case True
      with False Saved assms show ?thesis
        by (simp add: attempt_download_def Let_def)
    next
      case fresh: False
      then have "Some (sha256_hex cfg content) \<notin> set (downloaded_hashes (session st))"
        by (rule downloaded_hashes_fresh)
      with False Saved assms fresh show ?thesis
        by (simp add: attempt_download_def Let_def downloaded_hashes_def)
    qed
  qed
qed

lemma process_file_hashes:
  assumes "distinct (downloaded_hashes (session st))"
  shows "distinct (downloaded_hashes (session (process_file cfg src sn size_cap hit meta finfo st)))"
  using assms
  by (simp add: process_file_def Let_def downloaded_hashes_store attempt_download_hashes)

lemma process_files_hashes:
  "distinct (downloaded_hashes (session st)) \<Longrightarrow>
   distinct (downloaded_hashes (session (process_files cfg src sn size_cap hit meta files st)))"
proof (induction files arbitrary: st)
  case Nil
  then show ?case by (simp add: process_files_Nil)
next
  case (Cons finfo files)
  from Cons.prems
  have "distinct (downloaded_hashes (session (process_file cfg src sn size_cap hit meta finfo st)))"
    by (rule process_file_hashes)
  then show ?case
    unfolding process_files_Cons by (rule Cons.IH)
qed

lemma process_hit_hashes:
  "distinct (downloaded_hashes (session st)) \<Longrightarrow>
   distinct (downloaded_hashes (session (process_hit cfg src sn size_cap hit st)))"
  by (simp add: process_hit_def process_files_hashes split: option.splits)

lemma foldl_process_hit_hashes:
  "distinct (downloaded_hashes (session st)) \<Longrightarrow>
   distinct (downloaded_hashes
     (session (foldl (\<lambda>acc hit. process_hit cfg src sn size_cap hit acc) st hits)))"
proof (induction hits arbitrary: st)
  case Nil
  then show ?case by simp
next
  case (Cons hit hits)
  from Cons.prems
  have "distinct (downloaded_hashes (session (process_hit cfg src sn size_cap hit st)))"
    by (rule process_hit_hashes)
  then show ?case using Cons.IH by simp
qed

lemma process_hits_hashes:
  "distinct (downloaded_hashes (session st)) \<Longrightarrow>
   distinct (downloaded_hashes (session (process_hits cfg src sn hits st size_cap)))"
  using foldl_process_hit_hashes
    [of "st\<lparr>n_downloaded := 0, n_restricted := 0, n_skipped := 0\<rparr>" cfg src sn size_cap hits]
  by (simp add: process_hits_def)

lemma process_file_downloads:
  assumes "reaches_restriction_gate cfg sn size_cap finfo st"
    and "\<not> get_restricted finfo"
    and "pulled cfg src sn hit meta finfo = Saved local content"
  shows "process_file cfg src sn size_cap hit meta finfo st =
     (if hash_recorded (session st) (sha256_hex cfg content)
      then st\<lparr>disk := ((disk st)(local \<mapsto> content))(local := None)\<rparr>
      else st\<lparr>disk := (disk st)(local \<mapsto> content),
              session := session st @ [stored_download cfg sn hit meta finfo local content],
              n_downloaded := n_downloaded st + 1\<rparr>)"
proof -
  from assms(1) have fresh: "\<not> url_recorded (session st) sn (fi_download_url finfo)"
    and past: "process_file cfg src sn size_cap hit meta finfo st
                 = attempt_download cfg src sn hit meta finfo st"
    by (simp_all add: reaches_restriction_gate_def reaches_size_gate_def process_file_gates)
  show ?thesis
    unfolding past using assms(2,3) by (simp add: attempt_download_gates [OF fresh])
qed

text \<open>
  Claim C4. Two files with the same bytes, each reaching the download and downloaded with
  success, the first into a store that holds no record with the hash of these bytes, the
  second at any later time (in the same run or in a later one, from the same source or
  from another): the first is stored as one record with a local path and this hash; when
  the second is processed the hash-duplicate gate fires, the copy just written is deleted
  and the table and the counters stay as they are. And over any run of the pipeline, if
  no two downloaded records shared a content hash before, none do afterwards.
\<close>

theorem content_hash_dedup:
  assumes "reaches_restriction_gate cfg sn size_cap f1 st"
    and "\<not> get_restricted f1"
    and "pulled cfg src sn hit meta f1 = Saved l1 content"
    and "\<not> hash_recorded (session st) (sha256_hex cfg content)"
    and "set (session (process_file cfg src sn size_cap hit meta f1 st)) \<subseteq> set (session st2)"
    and "reaches_restriction_gate cfg sn2 size_cap2 f2 st2"
    and "\<not> get_restricted f2"
    and "pulled cfg src2 sn2 hit2 meta2 f2 = Saved l2 content"
  shows "session (process_file cfg src sn size_cap hit meta f1 st)
           = session st @ [stored_download cfg sn hit meta f1 l1 content]
       \<and> local_path (stored_download cfg sn hit meta f1 l1 content) \<noteq> None
       \<and> file_hash (stored_download cfg sn hit meta f1 l1 content) = Some (sha256_hex cfg content)
       \<and> length (filter (\<lambda>r. file_hash r = Some (sha256_hex cfg content))
            (session (process_file cfg src sn size_cap hit meta f1 st))) = 1
       \<and> process_file cfg src2 sn2 size_cap2 hit2 meta2 f2 st2
           = st2\<lparr>disk := ((disk st2)(l2 \<mapsto> content))(l2 := None)\<rparr>
       \<and> disk (process_file cfg src2 sn2 size_cap2 hit2 meta2 f2 st2) l2 = None
       \<and> session (process_file cfg src2 sn2 size_cap2 hit2 meta2 f2 st2) = session st2
       \<and> (distinct (downloaded_hashes (session st0)) \<longrightarrow>
            distinct (downloaded_hashes (session (process_hits cfg src sn hits st0 size_cap))))"
proof -
  let ?d = "sha256_hex cfg content"
  let ?st1 = "process_file cfg src sn size_cap hit meta f1 st"
  have first: "?st1 = st\<lparr>disk := (disk st)(l1 \<mapsto> content),
      session := session st @ [stored_download cfg sn hit meta f1 l1 content],
      n_downloaded := n_downloaded st + 1\<rparr>"
    using assms(1-4) by (simp add: process_file_downloads)
  then have s1: "session ?st1 = session st @ [stored_download cfg sn hit meta f1 l1 content]"
    by simp
  have lp: "local_path (stored_download cfg sn hit meta f1 l1 content) \<noteq> None"
    and fh: "file_hash (stored_download cfg sn hit meta f1 l1 content) = Some ?d"
    by (simp_all add: stored_download_def)
  from assms(4) have "filter (\<lambda>r. file_hash r = Some ?d) (session st) = []"
    by (auto simp: hash_recorded_iff filter_empty_conv)
  then have one: "length (filter (\<lambda>r. file_hash r = Some ?d) (session ?st1)) = 1"
    by (simp add: s1 fh)
  have "stored_download cfg sn hit meta f1 l1 content \<in> set (session ?st1)"
    by (simp add: s1)
  with assms(5) have "stored_download cfg sn hit meta f1 l1 content \<in> set (session st2)"
    by blast
  with fh have rec2: "hash_recorded (session st2) ?d"
    by (auto simp: hash_recorded_iff)
  have second: "process_file cfg src2 sn2 size_cap2 hit2 meta2 f2 st2
      = st2\<lparr>disk := ((disk st2)(l2 \<mapsto> content))(l2 := None)\<rparr>"
    using assms(6-8) rec2 by (simp add: process_file_downloads)
  have inv: "distinct (downloaded_hashes (session st0)) \<longrightarrow>
      distinct (downloaded_hashes (session (process_hits cfg src sn hits st0 size_cap)))"
    by (simp add: process_hits_hashes)
  show ?thesis
    using s1 lp fh one inv unfolding second by simp
qed

theorem content_hash_dedup_witness:
  "reaches_restriction_gate ex_cfg ''qdr'' DEFAULT_SIZE_CAP ex_copy1 empty_state
   \<and> \<not> get_restricted ex_copy1
   \<and> pulled ex_cfg ex_source ''qdr'' (mk_hit ''ds/A'') ex_meta ex_copy1
       = Saved ''/root/downloads/qdr/interviews-1/transcript.txt'' ''same bytes''
   \<and> \<not> hash_recorded (session empty_state) (sha256_hex ex_cfg ''same bytes'')
   \<and> reaches_restriction_gate ex_cfg ''qdr'' DEFAULT_SIZE_CAP ex_copy2
       (process_file ex_cfg ex_source ''qdr'' DEFAULT_SIZE_CAP (mk_hit ''ds/A'') ex_meta ex_copy1
          empty_state)
   \<and> \<not> get_restricted ex_copy2
   \<and> pulled ex_cfg ex_source ''qdr'' (mk_hit ''ds/A'') ex_meta ex_copy2
       = Saved ''/root/downloads/qdr/interviews-1/interview-01.txt'' ''same bytes''
   \<and> map local_path (session (process_files ex_cfg ex_source ''qdr'' DEFAULT_SIZE_CAP
         (mk_hit ''ds/A'') ex_meta [ex_copy1, ex_copy2] empty_state))
       = [Some ''/root/downloads/qdr/interviews-1/transcript.txt'']
   \<and> disk (process_files ex_cfg ex_source ''qdr'' DEFAULT_SIZE_CAP
         (mk_hit ''ds/A'') ex_meta [ex_copy1, ex_copy2] empty_state)
         ''/root/downloads/qdr/interviews-1/interview-01.txt'' = None
   \<and> disk (process_files ex_cfg ex_source ''qdr'' DEFAULT_SIZE_CAP
         (mk_hit ''ds/A'') ex_meta [ex_copy1, ex_copy2] empty_state)
         ''/root/downloads/qdr/interviews-1/transcript.txt'' = Some ''same bytes''
   \<and> n_downloaded (process_files ex_cfg ex_source ''qdr'' DEFAULT_SIZE_CAP
         (mk_hit ''ds/A'') ex_meta [ex_copy1, ex_copy2] empty_state) = 1"
proof -
  let ?l1 = "''/root/downloads/qdr/interviews-1/transcript.txt''"
  let ?l2 = "''/root/downloads/qdr/interviews-1/interview-01.txt''"
  let ?hit = "mk_hit ''ds/A''"
  let ?st1 = "process_file ex_cfg ex_source ''qdr'' DEFAULT_SIZE_CAP ?hit ex_meta ex_copy1 empty_state"
  let ?st2 = "process_file ex_cfg ex_source ''qdr'' DEFAULT_SIZE_CAP ?hit ex_meta ex_copy2 ?st1"
  have h1: "reaches_restriction_gate ex_cfg ''qdr'' DEFAULT_SIZE_CAP ex_copy1 empty_state"
    by code_simp
  have h2: "\<not> get_restricted ex_copy1" by code_simp
  have h3: "pulled ex_cfg ex_source ''qdr'' ?hit ex_meta ex_copy1 = Saved ?l1 ''same bytes''"
    by code_simp
  have h4: "\<not> hash_recorded (session empty_state) (sha256_hex ex_cfg ''same bytes'')"
    by code_simp
  have h5: "set (session ?st1) \<subseteq> set (session ?st1)" by simp
  have h6: "reaches_restriction_gate ex_cfg ''qdr'' DEFAULT_SIZE_CAP ex_copy2 ?st1"
    by code_simp
  have h7: "\<not> get_restricted ex_copy2" by code_simp
  have h8: "pulled ex_cfg ex_source ''qdr'' ?hit ex_meta ex_copy2 = Saved ?l2 ''same bytes''"
    by code_simp
  note c = content_hash_dedup [OF h1 h2 h3 h4 h5 h6 h7 h8, where ?st0.0 = empty_state
      and hits = "[]"]
  have run: "process_files ex_cfg ex_source ''qdr'' DEFAULT_SIZE_CAP ?hit ex_meta
      [ex_copy1, ex_copy2] empty_state = ?st2"
    by (simp add: process_files_Cons process_files_Nil)
  from c have s1: "session ?st1
      = session empty_state @ [stored_download ex_cfg ''qdr'' ?hit ex_meta ex_copy1 ?l1 ''same bytes'']"
    and s2: "session ?st2 = session ?st1" and d2: "disk ?st2 ?l2 = None"
    and e2: "?st2 = ?st1\<lparr>disk := ((disk ?st1)(?l2 \<mapsto> ''same bytes''))(?l2 := None)\<rparr>"
    by blast+
  have lp: "map local_path (session ?st2) = [Some ?l1]"
    unfolding s2 s1 by (simp add: empty_state_def stored_download_def ex_cfg_def)
  have d1: "disk ?st1 ?l1 = Some ''same bytes''" by code_simp
  have n1: "n_downloaded ?st1 = 1" by code_simp
  have ne: "?l2 \<noteq> ?l1" by simp
  have d1': "disk ?st2 ?l1 = Some ''same bytes''"
    by (subst e2) (simp add: d1 ne del: fun_upd_apply add: fun_upd_other)
  have n2: "n_downloaded ?st2 = 1"
    by (subst e2) (simp add: n1)
  show ?thesis
    unfolding run using h1 h2 h3 h4 h6 h7 h8 lp d2 d1' n2 by simp
qed

section \<open>Running the pipeline a second time\<close>

lemma store_metadata_record_keyed:
  "list_ex (\<lambda>r. source_name r = sn \<and> download_url r = fi_download_url finfo \<and> file_name r = fname)
     (store_metadata_record rows sn hit meta finfo fname ext q folder note)"
  by (simp add: store_metadata_record_def)

lemma store_metadata_record_known:
  assumes "set (store_metadata_record rows0 sn hit meta finfo fname ext q folder note) \<subseteq> set rows"
  shows "store_metadata_record rows sn hit meta finfo fname ext q folder' note' = rows"
proof -
  from store_metadata_record_keyed [of sn finfo fname rows0 hit meta ext q folder "note"]
  obtain r where "r \<in> set (store_metadata_record rows0 sn hit meta finfo fname ext q folder note)"
    and k: "source_name r = sn \<and> download_url r = fi_download_url finfo \<and> file_name r = fname"
    by (auto simp: list_ex_iff)
  with assms have "r \<in> set rows" by blast
  with k have "list_ex (\<lambda>r. source_name r = sn \<and> download_url r = fi_download_url finfo
      \<and> file_name r = fname) rows"
    by (auto simp: list_ex_iff)
  then show ?thesis by (simp add: store_metadata_record_def)
qed

lemma url_recorded_mono:
  "url_recorded rows0 sn url \<Longrightarrow> set rows0 \<subseteq> set rows \<Longrightarrow> url_recorded rows sn url"
  by (auto simp: url_recorded_iff)

lemma hash_recorded_mono:
  "hash_recorded rows0 d \<Longrightarrow> set rows0 \<subseteq> set rows \<Longrightarrow> hash_recorded rows d"
  by (auto simp: hash_recorded_iff)

lemma url_recorded_gate_record:
  "url_recorded (rows @ [gate_record cfg sn hit meta finfo note]) sn (fi_download_url finfo)"
  by (simp add: url_recorded_iff gate_record_def)

lemma url_recorded_stored_download:
  "url_recorded (rows @ [stored_download cfg sn hit meta finfo local content]) sn
     (fi_download_url finfo)"
  by (simp add: url_recorded_iff stored_download_def)

lemma process_file_session_mono:
  "set (session st) \<subseteq> set (session (process_file cfg src sn size_cap hit meta finfo st))"
  by (rule extends_by_subset [OF process_file_extends])

lemma process_files_session_mono:
  "set (session st) \<subseteq> set (session (process_files cfg src sn size_cap hit meta files st))"
  by (rule extends_by_subset [OF process_files_extends])

lemma process_hit_session_mono:
  "set (session st) \<subseteq> set (session (process_hit cfg src sn size_cap hit st))"
  by (rule extends_by_subset [OF process_hit_extends])

lemma foldl_process_hit_session_mono:
  "set (session st)
     \<subseteq> set (session (foldl (\<lambda>acc hit. process_hit cfg src sn size_cap hit acc) st hits))"
  by (rule extends_by_subset [OF foldl_process_hit_extends])

text \<open>
  A file that was processed once changes neither the table nor the downloaded counter when
  it is processed again in a state whose table holds all that the first pass left.
\<close>

lemma process_file_stable:
  assumes sub: "set (session (process_file cfg src sn size_cap hit meta finfo st0)) \<subseteq> set (session st)"
  shows "session (process_file cfg src sn size_cap hit meta finfo st) = session st
       \<and> n_downloaded (process_file cfg src sn size_cap hit meta finfo st) = n_downloaded st"
proof (cases "recognised_format cfg finfo")
  case False
  with sub have "set (store_metadata_record (session st0) sn hit meta finfo (fi_name finfo)
      (lower (path_suffix (fi_name finfo))) (is_qda_file cfg (fi_name finfo) finfo) None
      ''irrelevant file type'') \<subseteq> set (session st)"
    by (simp add: process_file_gates)
  then have "store_metadata_record (session st) sn hit meta finfo (fi_name finfo)
      (lower (path_suffix (fi_name finfo))) (is_qda_file cfg (fi_name finfo) finfo) None
      ''irrelevant file type'' = session st"
    by (rule store_metadata_record_known)
  with False show ?thesis by (simp add: process_file_gates)
next
  case fmt: True
  show ?thesis
  proof (cases "url_recorded (session st) sn (fi_download_url finfo)")
    case True
    with fmt show ?thesis by (simp add: process_file_gates)
  next
    case fresh: False
    let ?st0' = "process_file cfg src sn size_cap hit meta finfo st0"
    from fresh sub have fresh0': "\<not> url_recorded (session ?st0') sn (fi_download_url finfo)"
      using url_recorded_mono by blast
    moreover have "set (session st0) \<subseteq> set (session ?st0')"
      by (rule process_file_session_mono)
    ultimately have fresh0: "\<not> url_recorded (session st0) sn (fi_download_url finfo)"
      using url_recorded_mono by blast
    have not_over: "\<not> over_cap cfg size_cap finfo"
    proof
      assume "over_cap cfg size_cap finfo"
      with fmt fresh0 have "session ?st0' = session st0 @
          [gate_record cfg sn hit meta finfo (oversized_notes (declared_bytes finfo))]"
        by (simp add: process_file_gates)
      with fresh0' show False by (simp add: url_recorded_gate_record)
    qed
    with fmt fresh0 have e0: "?st0' = attempt_download cfg src sn hit meta finfo st0"
      by (simp add: process_file_gates)
    from fmt fresh not_over
    have e: "process_file cfg src sn size_cap hit meta finfo st
               = attempt_download cfg src sn hit meta finfo st"
      by (simp add: process_file_gates)
    have not_restricted: "\<not> get_restricted finfo"
    proof
      assume "get_restricted finfo"
      then have "session ?st0' = session st0 @ [gate_record cfg sn hit meta finfo default_notes]"
        unfolding e0 by (simp add: attempt_download_gates [OF fresh0])
      with fresh0' show False by (simp add: url_recorded_gate_record)
    qed
    show ?thesis
    proof (cases "pulled cfg src sn hit meta finfo")
      case (Raised err)
      have "err \<noteq> HTTPStatusError 403"
      proof
        assume "err = HTTPStatusError 403"
        with Raised not_restricted
        have "session ?st0' = session st0 @ [gate_record cfg sn hit meta finfo default_notes]"
          unfolding e0 by (simp add: attempt_download_gates [OF fresh0])
        with fresh0' show False by (simp add: url_recorded_gate_record)
      qed
      with Raised not_restricted show ?thesis
        unfolding e by (simp add: attempt_download_gates [OF fresh])
    next
      case (Saved local content)
      have known0: "hash_recorded (session st0) (sha256_hex cfg content)"
      proof (rule ccontr)
        assume "\<not> hash_recorded (session st0) (sha256_hex cfg content)"
        with Saved not_restricted
        have "session ?st0' = session st0 @ [stored_download cfg sn hit meta finfo local content]"
          unfolding e0 by (simp add: attempt_download_gates [OF fresh0])
        with fresh0' show False by (simp add: url_recorded_stored_download)
      qed
      have "set (session st0) \<subseteq> set (session st)"
        using process_file_session_mono [of st0 cfg src sn size_cap hit meta finfo] sub by blast
      with known0 have "hash_recorded (session st) (sha256_hex cfg content)"
        by (rule hash_recorded_mono)
      with Saved not_restricted show ?thesis
        unfolding e by (simp add: attempt_download_gates [OF fresh])
    qed
  qed
qed

lemma process_files_stable:
  assumes "set (session (process_files cfg src sn size_cap hit meta files st0)) \<subseteq> set (session st)"
  shows "session (process_files cfg src sn size_cap hit meta files st) = session st
       \<and> n_downloaded (process_files cfg src sn size_cap hit meta files st) = n_downloaded st"
  using assms
proof (induction files arbitrary: st0 st)
  case Nil
  show ?case by (simp add: process_files_Nil)
next
  case (Cons finfo files)
  let ?st0' = "process_file cfg src sn size_cap hit meta finfo st0"
  let ?st' = "process_file cfg src sn size_cap hit meta finfo st"
  from Cons.prems
  have all: "set (session (process_files cfg src sn size_cap hit meta files ?st0')) \<subseteq> set (session st)"
    by (simp add: process_files_Cons)
  have "set (session ?st0') \<subseteq> set (session (process_files cfg src sn size_cap hit meta files ?st0'))"
    by (rule process_files_session_mono)
  with all have "set (session ?st0') \<subseteq> set (session st)" by blast
  then have step: "session ?st' = session st \<and> n_downloaded ?st' = n_downloaded st"
    by (rule process_file_stable)
  with all
  have "set (session (process_files cfg src sn size_cap hit meta files ?st0')) \<subseteq> set (session ?st')"
    by simp
  then have "session (process_files cfg src sn size_cap hit meta files ?st') = session ?st'
       \<and> n_downloaded (process_files cfg src sn size_cap hit meta files ?st') = n_downloaded ?st'"
    by (rule Cons.IH)
  with step show ?case by (simp add: process_files_Cons)
qed

lemma process_hit_stable:
  assumes "set (session (process_hit cfg src sn size_cap hit st0)) \<subseteq> set (session st)"
  shows "session (process_hit cfg src sn size_cap hit st) = session st
       \<and> n_downloaded (process_hit cfg src sn size_cap hit st) = n_downloaded st"
proof (cases "src_fetch_metadata src (h_source_url hit)")
  case None
  then show ?thesis by (simp add: process_hit_def)
next
  case (Some meta)
  show ?thesis
  proof (cases "process_hit cfg src sn size_cap hit st0
                  = process_files cfg src sn size_cap hit meta (h_files meta) st0
                \<and> process_hit cfg src sn size_cap hit st
                  = process_files cfg src sn size_cap hit meta (h_files meta) st")
    case True
    with assms process_files_stable [of cfg src sn size_cap hit meta "h_files meta" st0 st]
    show ?thesis by simp
  next
    case False
    with Some show ?thesis
      by (auto simp: process_hit_def split: if_splits)
  qed
qed

lemma foldl_process_hit_stable:
  assumes "set (session (foldl (\<lambda>acc hit. process_hit cfg src sn size_cap hit acc) st0 hits))
             \<subseteq> set (session st)"
  shows "session (foldl (\<lambda>acc hit. process_hit cfg src sn size_cap hit acc) st hits) = session st
       \<and> n_downloaded (foldl (\<lambda>acc hit. process_hit cfg src sn size_cap hit acc) st hits)
           = n_downloaded st"
  using assms
proof (induction hits arbitrary: st0 st)
  case Nil
  show ?case by simp
next
  case (Cons hit hits)
  let ?f = "\<lambda>acc hit. process_hit cfg src sn size_cap hit acc"
  let ?st0' = "process_hit cfg src sn size_cap hit st0"
  let ?st' = "process_hit cfg src sn size_cap hit st"
  from Cons.prems have all: "set (session (foldl ?f ?st0' hits)) \<subseteq> set (session st)"
    by simp
  have "set (session ?st0') \<subseteq> set (session (foldl ?f ?st0' hits))"
    by (rule foldl_process_hit_session_mono)
  with all have "set (session ?st0') \<subseteq> set (session st)" by blast
  then have step: "session ?st' = session st \<and> n_downloaded ?st' = n_downloaded st"
    by (rule process_hit_stable)
  with all have "set (session (foldl ?f ?st0' hits)) \<subseteq> set (session ?st')" by simp
  then have "session (foldl ?f ?st' hits) = session ?st'
       \<and> n_downloaded (foldl ?f ?st' hits) = n_downloaded ?st'"
    by (rule Cons.IH)
  with step show ?case by simp
qed

text \<open>
  Claim C1: for every list of hits (a single hit in particular) and every state of the
  store, with an adapter that answers the second run as it answered the first, running
  \<^verbatim>\<open>_process_hits\<close> again over the same hits against the store that the first run left
  leaves the records of the store as they are and returns a downloaded counter of 0.
\<close>

theorem admission_idempotent:
  "session (process_hits cfg src sn hits (process_hits cfg src sn hits st size_cap) size_cap)
     = session (process_hits cfg src sn hits st size_cap)
   \<and> n_downloaded
       (process_hits cfg src sn hits (process_hits cfg src sn hits st size_cap) size_cap) = 0"
proof -
  let ?f = "\<lambda>acc hit. process_hit cfg src sn size_cap hit acc"
  let ?st0 = "st\<lparr>n_downloaded := 0, n_restricted := 0, n_skipped := 0\<rparr>"
  let ?st1 = "process_hits cfg src sn hits st size_cap"
  let ?again = "?st1\<lparr>n_downloaded := 0, n_restricted := 0, n_skipped := 0\<rparr>"
  have "set (session (foldl ?f ?st0 hits)) \<subseteq> set (session ?again)"
    by (simp add: process_hits_def)
  then have "session (foldl ?f ?again hits) = session ?again
       \<and> n_downloaded (foldl ?f ?again hits) = n_downloaded ?again"
    by (rule foldl_process_hit_stable)
  moreover have "process_hits cfg src sn hits ?st1 size_cap = foldl ?f ?again hits"
    by (simp add: process_hits_def)
  ultimately show ?thesis by simp
qed

theorem admission_idempotent_witness:
  "session (process_hits ex_cfg ex_source ''qdr'' [mk_hit ''ds/A'']
      (process_hits ex_cfg ex_source ''qdr'' [mk_hit ''ds/A''] empty_state DEFAULT_SIZE_CAP)
      DEFAULT_SIZE_CAP)
     = session (process_hits ex_cfg ex_source ''qdr'' [mk_hit ''ds/A''] empty_state DEFAULT_SIZE_CAP)
   \<and> n_downloaded (process_hits ex_cfg ex_source ''qdr'' [mk_hit ''ds/A'']
      (process_hits ex_cfg ex_source ''qdr'' [mk_hit ''ds/A''] empty_state DEFAULT_SIZE_CAP)
      DEFAULT_SIZE_CAP) = 0
   \<and> map download_url (session (process_hits ex_cfg ex_source ''qdr'' [mk_hit ''ds/A'']
        empty_state DEFAULT_SIZE_CAP)) = [''f/qda'', ''f/zip'']
   \<and> n_downloaded (process_hits ex_cfg ex_source ''qdr'' [mk_hit ''ds/A''] empty_state
        DEFAULT_SIZE_CAP) = 1"
proof -
  have "map download_url (session (process_hits ex_cfg ex_source ''qdr'' [mk_hit ''ds/A'']
        empty_state DEFAULT_SIZE_CAP)) = [''f/qda'', ''f/zip'']"
    by code_simp
  moreover have "n_downloaded (process_hits ex_cfg ex_source ''qdr'' [mk_hit ''ds/A''] empty_state
        DEFAULT_SIZE_CAP) = 1"
    by code_simp
  ultimately show ?thesis
    using admission_idempotent [of ex_cfg ex_source "''qdr''" "[mk_hit ''ds/A'']" empty_state
        DEFAULT_SIZE_CAP]
    by blast
qed

section \<open>Lists and whitespace\<close>

lemma dropWhile_append_ex:
  "\<exists>x\<in>set xs. \<not> P x \<Longrightarrow> dropWhile P (xs @ ys) = dropWhile P xs @ ys"
  by (induction xs) auto

lemma takeWhile_append_ex:
  "\<exists>x\<in>set xs. \<not> P x \<Longrightarrow> takeWhile P (xs @ ys) = takeWhile P xs"
  by (induction xs) auto

lemma is_space_space: "is_space (CHR '' '')"
  by (simp add: is_space_def)

lemma collapse_ws_Nil: "collapse_ws [] = []"
  by (simp add: collapse_ws_def)

lemma collapse_ws_Cons:
  "collapse_ws (c # cs) =
     (if is_space c then CHR '' '' # collapse_ws (dropWhile is_space cs) else c # collapse_ws cs)"
  by (simp add: collapse_ws_def)

lemma collapse_ws_induct [case_names Nil Cons]:
  assumes "P []"
    and "\<And>c cs. (is_space c \<Longrightarrow> P (dropWhile is_space cs)) \<Longrightarrow> (\<not> is_space c \<Longrightarrow> P cs)
           \<Longrightarrow> P (c # cs)"
  shows "P s"
proof (induction s rule: length_induct)
  case (1 xs)
  show ?case
  proof (cases xs)
    case Nil
    with assms(1) show ?thesis by simp
  next
    case (Cons c cs)
    have "length (dropWhile is_space cs) \<le> length cs"
      by (rule length_dropWhile_le)
    then have "P (dropWhile is_space cs)" and "P cs"
      using 1 Cons by simp_all
    then show ?thesis using assms(2) Cons by simp
  qed
qed

lemma collapse_ws_dropWhile:
  "collapse_ws (dropWhile is_space s) = dropWhile is_space (collapse_ws s)"
proof (induction s rule: collapse_ws_induct)
  case Nil
  show ?case by (simp add: collapse_ws_Nil)
next
  case (Cons c cs)
  show ?case
  proof (cases "is_space c")
    case True
    with Cons show ?thesis by (simp add: collapse_ws_Cons is_space_space)
  next
    case False
    then show ?thesis by (simp add: collapse_ws_Cons)
  qed
qed

lemma dropWhile_all_space:
  "\<forall>x\<in>set t. is_space x \<Longrightarrow> dropWhile is_space (t @ '' '') = []"
  by (simp add: is_space_space)

lemma strip_append_space: "strip (t @ '' '') = strip t"
proof (cases "\<forall>x\<in>set t. is_space x")
  case True
  then have a: "dropWhile is_space t = []" by simp
  have b: "dropWhile is_space (t @ '' '') = []"
    using True by (rule dropWhile_all_space)
  show ?thesis unfolding strip_def strip_chars_def a b by simp
next
  case False
  then have "dropWhile is_space (t @ '' '') = dropWhile is_space t @ '' ''"
    by (intro dropWhile_append_ex) simp
  then show ?thesis by (simp add: strip_def strip_chars_def is_space_space)
qed

lemma collapse_ws_append_space:
  "collapse_ws (s @ '' '') = collapse_ws s \<or> collapse_ws (s @ '' '') = collapse_ws s @ '' ''"
proof (induction s rule: collapse_ws_induct)
  case Nil
  show ?case by (simp add: collapse_ws_Nil collapse_ws_Cons is_space_space)
next
  case (Cons c cs)
  show ?case
  proof (cases "is_space c")
    case False
    with Cons show ?thesis by (auto simp: collapse_ws_Cons)
  next
    case True
    show ?thesis
    proof (cases "\<forall>x\<in>set cs. is_space x")
      case all: True
      then have a: "dropWhile is_space cs = []" by simp
      have b: "dropWhile is_space (cs @ '' '') = []"
        using all by (rule dropWhile_all_space)
      have "collapse_ws (c # cs @ '' '') = '' ''"
        using True by (simp add: collapse_ws_Cons collapse_ws_Nil b del: dropWhile_append)
      moreover have "collapse_ws (c # cs) = '' ''"
        using True by (simp add: collapse_ws_Cons collapse_ws_Nil a)
      ultimately show ?thesis by simp
    next
      case False
      then have d: "dropWhile is_space (cs @ '' '') = dropWhile is_space cs @ '' ''"
        by (intro dropWhile_append_ex) simp
      from Cons(1) [OF True]
      have "collapse_ws (dropWhile is_space cs @ '' '') = collapse_ws (dropWhile is_space cs)
          \<or> collapse_ws (dropWhile is_space cs @ '' '') = collapse_ws (dropWhile is_space cs) @ '' ''" .
      with True show ?thesis
        by (auto simp: collapse_ws_Cons d simp del: dropWhile_append)
    qed
  qed
qed

section \<open>The license classifier and HTML tags\<close>

lemma html_tagE:
  assumes "html_tag t"
  obtains body where "body \<noteq> []" "CHR ''>'' \<notin> set body" "t = CHR ''<'' # body @ ''>''"
proof (cases t)
  case Nil
  with assms show ?thesis by (simp add: html_tag_def)
next
  case (Cons c rest)
  with assms have c: "c = CHR ''<''" and r: "rest \<noteq> []" "last rest = CHR ''>''"
    and b: "butlast rest \<noteq> []" "CHR ''>'' \<notin> set (butlast rest)"
    by (simp_all add: html_tag_def)
  from r have "rest = butlast rest @ ''>''"
    by (metis append_butlast_last_id)
  with c Cons have "t = CHR ''<'' # butlast rest @ ''>''" by simp
  with b that show ?thesis by blast
qed

lemma tags_closed_dropWhile: "tags_closed s \<Longrightarrow> tags_closed (dropWhile P s)"
  by (induction s) auto

lemma tags_closed_tl: "tags_closed s \<Longrightarrow> tags_closed (tl s)"
  by (cases s) auto

lemma strip_tags_tag:
  assumes "html_tag t"
  shows "strip_tags (t @ s) = CHR '' '' # strip_tags s"
proof -
  from assms obtain body where b: "body \<noteq> []" "CHR ''>'' \<notin> set body"
    and t: "t = CHR ''<'' # body @ ''>''"
    by (rule html_tagE)
  have tw: "takeWhile (\<lambda>x. x \<noteq> CHR ''>'') (body @ CHR ''>'' # s) = body"
    using b(2) by (induction body) auto
  have dw: "dropWhile (\<lambda>x. x \<noteq> CHR ''>'') (body @ CHR ''>'' # s) = CHR ''>'' # s"
    using b(2) by (induction body) auto
  show ?thesis
    using b(1) by (simp add: t tw dw)
qed

lemma strip_tags_append_tag:
  assumes "html_tag t"
  shows "tags_closed s \<Longrightarrow> strip_tags (s @ t) = strip_tags s @ '' ''"
proof (induction s rule: strip_tags.induct)
  case 1
  show ?case using strip_tags_tag [OF assms, of "[]"] by simp
next
  case (2 c cs)
  let ?P = "\<lambda>x. x \<noteq> CHR ''>''"
  show ?case
  proof (cases "c = CHR ''<''")
    case False
    with 2 show ?thesis by simp
  next
    case True
    with "2.prems" have gt: "CHR ''>'' \<in> set cs" and cl: "tags_closed cs" by auto
    from gt have ex: "\<exists>x\<in>set cs. \<not> ?P x" by auto
    have tw: "takeWhile ?P (cs @ t) = takeWhile ?P cs"
      using ex by (rule takeWhile_append_ex)
    have dw: "dropWhile ?P (cs @ t) = dropWhile ?P cs @ t"
      using ex by (rule dropWhile_append_ex)
    have ne: "dropWhile ?P cs \<noteq> []"
      using ex by (simp add: dropWhile_eq_Nil_conv)
    show ?thesis
    proof (cases "takeWhile ?P cs = []")
      case True
      with 2 cl \<open>c = CHR ''<''\<close> show ?thesis by (simp add: tw dw)
    next
      case False
      have cl': "tags_closed (tl (dropWhile ?P cs))"
        using cl by (intro tags_closed_tl tags_closed_dropWhile)
      have "strip_tags (tl (dropWhile ?P cs) @ t) = strip_tags (tl (dropWhile ?P cs)) @ '' ''"
        using "2.IH"(1) \<open>c = CHR ''<''\<close> False ne cl' by simp
      moreover have "tl (dropWhile ?P cs @ t) = tl (dropWhile ?P cs) @ t"
        using ne by simp
      ultimately show ?thesis
        using \<open>c = CHR ''<''\<close> False ne by (simp add: tw dw)
    qed
  qed
qed

lemma cleaned_of_wrapped:
  assumes "html_tag otag" "html_tag ctag" "tags_closed s"
  shows "cleaned_of (otag @ s @ ctag) = cleaned_of s"
proof -
  have "strip_tags (otag @ s @ ctag) = CHR '' '' # strip_tags s @ '' ''"
    using assms by (simp add: strip_tags_tag strip_tags_append_tag)
  then have "cleaned_of (otag @ s @ ctag)
      = strip (CHR '' '' # collapse_ws (dropWhile is_space (strip_tags s @ '' '')))"
    by (simp add: cleaned_of_def collapse_ws_Cons is_space_space del: dropWhile_append)
  also have "\<dots> = strip (collapse_ws (strip_tags s @ '' ''))"
    by (simp add: collapse_ws_dropWhile strip_def strip_chars_def is_space_space
        del: dropWhile_append)
  also have "\<dots> = strip (collapse_ws (strip_tags s))"
    using collapse_ws_append_space [of "strip_tags s"] by (auto simp: strip_append_space)
  finally show ?thesis by (simp add: cleaned_of_def)
qed

lemma cleaned_of_Nil: "cleaned_of [] = []"
  by (simp add: cleaned_of_def strip_def strip_chars_def collapse_ws_Nil)

lemma not_open_Nil_cleaned:
  "cleaned_of s = [] \<Longrightarrow> license_is_open (Some s) = False"
  by (simp add: license_is_open_def canonical_of_def lower_def replace_char_def
      ACCEPTED_def OPEN_PHRASES_def)

text \<open>
  Claim C9, as stated: for every license string, wrapping it in HTML tags that the
  classifier strips gives the same verdict as the string itself. This fails when the
  string holds a \<^verbatim>\<open><\<close> that no \<^verbatim>\<open>>\<close> closes: the closing tag then completes a tag that
  starts inside the string, and the text after that \<^verbatim>\<open><\<close> is stripped with it.
\<close>

theorem license_is_open_wrapped_counterexample:
  "html_tag ''<p>'' \<and> html_tag ''</p>''
   \<and> license_is_open (Some (''<p>'' @ ''see <cc0'' @ ''</p>''))
       \<noteq> license_is_open (Some ''see <cc0'')"
  by (simp add: html_tag_def license_is_open_def cleaned_of_def canonical_of_def
      collapse_ws_def strip_def strip_chars_def is_space_def lower_def lower_char_def
      replace_char_def ACCEPTED_def OPEN_PHRASES_def)

text \<open>
  Claim C9, amended: for every license string in which each \<^verbatim>\<open><\<close> is followed later by a
  \<^verbatim>\<open>>\<close>, wrapping the string in an opening and a closing tag that the classifier strips
  gives the same verdict as the string itself.
\<close>

theorem license_is_open_wrapped:
  assumes "html_tag otag" "html_tag ctag" "tags_closed s"
  shows "license_is_open (Some (otag @ s @ ctag)) = license_is_open (Some s)"
proof (cases "s = []")
  case True
  have "cleaned_of (otag @ s @ ctag) = []"
    using cleaned_of_wrapped [OF assms] True by (simp add: cleaned_of_Nil)
  then have "license_is_open (Some (otag @ s @ ctag)) = False"
    by (rule not_open_Nil_cleaned)
  with True show ?thesis by (simp add: license_is_open_def)
next
  case False
  from assms(1) have "otag \<noteq> []" by (auto simp: html_tag_def)
  with False show ?thesis
    by (simp add: license_is_open_def cleaned_of_wrapped [OF assms])
qed

theorem license_is_open_wrapped_witness:
  "html_tag ''<p>'' \<and> html_tag ''</p>'' \<and> tags_closed ''CC BY 4.0''
   \<and> license_is_open (Some (''<p>'' @ ''CC BY 4.0'' @ ''</p>'')) = license_is_open (Some ''CC BY 4.0'')
   \<and> license_is_open (Some ''CC BY 4.0'')"
  using license_is_open_wrapped [of "''<p>''" "''</p>''" "''CC BY 4.0''"]
  by (simp add: html_tag_def license_is_open_def cleaned_of_def canonical_of_def
      collapse_ws_def strip_def strip_chars_def is_space_def lower_def lower_char_def
      replace_char_def ACCEPTED_def OPEN_PHRASES_def)

section \<open>The license classifier on the allow-list\<close>

lemma lower_char_fixed:
  "lower_char (CHR '' '') = CHR '' ''" "lower_char (CHR ''_'') = CHR ''_''"
  "lower_char (CHR ''<'') = CHR ''<''"
  by (simp_all add: lower_char_def)

lemma lower_char_cases:
  "lower_char v = v \<or> v \<in> set ''ABCDEFGHIJKLMNOPQRSTUVWXYZ''"
  by (simp add: lower_char_def)

lemma lower_char_space: "is_space v \<Longrightarrow> lower_char v = v"
  using lower_char_cases [of v] by (auto simp: is_space_def)

lemma member_char_space: "member_char m \<Longrightarrow> is_space m \<Longrightarrow> m = CHR '' ''"
  by (auto simp: member_char_def is_space_def)

lemma variant_char_space:
  assumes "variant_char m v" "member_char m" "is_space v"
  shows "v = CHR '' '' \<and> sep_char m"
proof (cases "lower_char v = m")
  case True
  with assms(3) have "v = m" by (simp add: lower_char_space)
  with assms(2,3) show ?thesis by (auto simp: sep_char_def dest: member_char_space)
next
  case False
  with assms(1) have "m = CHR ''-''" "v = CHR '' '' \<or> v = CHR ''_''"
    by (auto simp: variant_char_def)
  with assms(3) show ?thesis by (auto simp: sep_char_def is_space_def)
qed

lemma variant_char_no_tag:
  assumes "variant_char m v" "member_char m"
  shows "v \<noteq> CHR ''<''"
proof
  assume "v = CHR ''<''"
  with assms(1) have "m = CHR ''<''" by (auto simp: variant_char_def lower_char_fixed)
  with assms(2) show False by (simp add: member_char_def)
qed

lemma variant_char_canon:
  assumes "variant_char m v"
  shows "canon_char (lower_char v) = canon_char m"
  using assms by (auto simp: variant_char_def canon_char_def lower_char_fixed)

lemma variant_char_lower:
  assumes "variant_char m v" "m \<noteq> CHR ''-''"
  shows "lower_char v = m"
  using assms by (simp add: variant_char_def)

lemma canonical_of_map: "canonical_of s = map (\<lambda>c. canon_char (lower_char c)) s"
  by (auto simp: canonical_of_def replace_char_def lower_def canon_char_def)

lemma variant_canonical:
  "list_all2 variant_char m v \<Longrightarrow> canonical_of v = map canon_char m"
  unfolding canonical_of_map
  by (induction rule: list_all2_induct) (simp_all add: variant_char_canon)

lemma variant_lower:
  "list_all2 variant_char m v \<Longrightarrow> CHR ''-'' \<notin> set m \<Longrightarrow> lower v = m"
  unfolding lower_def
  by (induction rule: list_all2_induct) (auto simp: variant_char_lower)

lemma variant_no_tag:
  "list_all2 variant_char m v \<Longrightarrow> list_all member_char m \<Longrightarrow> CHR ''<'' \<notin> set v"
  by (induction rule: list_all2_induct) (auto dest: variant_char_no_tag)

lemma variant_single_spaced:
  "list_all2 variant_char m v \<Longrightarrow> list_all member_char m \<Longrightarrow> single_sep m \<Longrightarrow> single_spaced v"
proof (induction m arbitrary: v rule: single_sep.induct)
  case 1
  then show ?case by simp
next
  case (2 c)
  then obtain w where v: "v = [w]" and w: "variant_char c w"
    by (auto simp: list_all2_Cons1)
  from 2 have "member_char c" "\<not> sep_char c" by simp_all
  with w have "\<not> is_space w" using variant_char_space by blast
  with v show ?case by simp
next
  case (3 a b r)
  from "3.prems"(1) obtain x y s where v: "v = x # y # s" and x: "variant_char a x"
    and y: "variant_char b y" and rest: "list_all2 variant_char (b # r) (y # s)"
    by (auto simp: list_all2_Cons1)
  from "3.prems" have ma: "member_char a" and mb: "member_char b"
    and mr: "list_all member_char (b # r)"
    and sa: "sep_char a \<longrightarrow> \<not> sep_char b" and sr: "single_sep (b # r)"
    by simp_all
  have tail: "single_spaced (y # s)"
    using rest mr sr by (rule "3.IH")
  have "is_space x \<longrightarrow> x = CHR '' '' \<and> \<not> is_space y"
  proof
    assume sx: "is_space x"
    with x ma have "x = CHR '' ''" "sep_char a" using variant_char_space by blast+
    with sa have "\<not> sep_char b" by simp
    with y mb have "\<not> is_space y" using variant_char_space by blast
    with \<open>x = CHR '' ''\<close> show "x = CHR '' '' \<and> \<not> is_space y" by simp
  qed
  with tail v show ?case by simp
qed

lemma strip_tags_no_tag: "CHR ''<'' \<notin> set s \<Longrightarrow> strip_tags s = s"
  by (induction s) auto

lemma collapse_ws_single_spaced: "single_spaced s \<Longrightarrow> collapse_ws s = s"
proof (induction s rule: single_spaced.induct)
  case 1
  show ?case by (simp add: collapse_ws_Nil)
next
  case (2 c)
  then show ?case by (simp add: collapse_ws_Cons collapse_ws_Nil)
next
  case (3 a b r)
  then have tail: "collapse_ws (b # r) = b # r" by simp
  show ?case
  proof (cases "is_space a")
    case True
    with 3 have "a = CHR '' ''" "\<not> is_space b" by simp_all
    then have "collapse_ws (a # b # r) = CHR '' '' # collapse_ws (b # r)"
      by (subst collapse_ws_Cons) (simp add: is_space_space)
    with \<open>a = CHR '' ''\<close> tail show ?thesis by simp
  next
    case False
    then have "collapse_ws (a # b # r) = a # collapse_ws (b # r)"
      by (subst collapse_ws_Cons) simp
    with tail show ?thesis by simp
  qed
qed

lemma single_spaced_last: "single_spaced s \<Longrightarrow> s \<noteq> [] \<Longrightarrow> \<not> is_space (last s)"
  by (induction s rule: single_spaced.induct) auto

lemma strip_tidy:
  assumes "s \<noteq> []" "\<not> is_space (hd s)" "\<not> is_space (last s)"
  shows "strip s = s"
proof -
  from assms(1,2) have a: "dropWhile is_space s = s"
    by (cases s) simp_all
  from assms(1,3) have b: "dropWhile is_space (rev s) = rev s"
    by (cases "rev s") (simp_all add: last_rev [symmetric] del: last_rev)
  show ?thesis by (simp add: strip_def strip_chars_def a b)
qed

lemma variant_cleaned:
  assumes "list_all2 variant_char m v" "identifier_ok m"
  shows "cleaned_of v = v \<and> v \<noteq> []"
proof -
  from assms(2) have m: "m \<noteq> []" "\<not> sep_char (hd m)" "single_sep m" "list_all member_char m"
    by (simp_all add: identifier_ok_def)
  from assms(1) m(1) have ne: "v \<noteq> []" by (auto simp: list_all2_conv_all_nth)
  from assms(1) m(4) have t: "strip_tags v = v"
    by (intro strip_tags_no_tag variant_no_tag)
  from assms(1) m(4) m(3) have ss: "single_spaced v"
    by (rule variant_single_spaced)
  then have c: "collapse_ws v = v" by (rule collapse_ws_single_spaced)
  from ss ne have l: "\<not> is_space (last v)" by (rule single_spaced_last)
  from assms(1) m(1) ne obtain a r x s where "m = a # r" "v = x # s" "variant_char a x"
    by (cases m; cases v) auto
  with m(2,4) have h: "\<not> is_space (hd v)"
    using variant_char_space [of a x] by auto
  from ne h l have "strip v = v" by (rule strip_tidy)
  with t c ne show ?thesis by (simp add: cleaned_of_def)
qed

lemma ACCEPTED_ok: "\<forall>m\<in>set ACCEPTED. identifier_ok m"
  by (simp add: ACCEPTED_def identifier_ok_def member_char_def sep_char_def)

text \<open>
  Part of claim C3 that holds: null and empty input are not open, and every case and
  spacing variant of a member of the allow-list is open, a variant changing the case of
  letters and writing a hyphen as a hyphen, a space or an underscore. A member that has
  no space is matched as a prefix of the canonical form; the member \<^verbatim>\<open>public domain\<close>
  is never matched as a prefix, and its case variants are open through the phrases.
\<close>

lemma license_is_open_variants:
  assumes "m \<in> set ACCEPTED" and "variant_of m v"
  shows "license_is_open (Some v)"
proof -
  from assms(2) have v: "list_all2 variant_char m v" by (simp add: variant_of_def)
  from assms(1) ACCEPTED_ok have ok: "identifier_ok m" by blast
  from variant_cleaned [OF v ok] have cl: "cleaned_of v = v" and ne: "v \<noteq> []" by simp_all
  have can: "canonical_of v = map canon_char m" using v by (rule variant_canonical)
  show ?thesis
  proof (cases "m = ''public domain''")
    case True
    then have "CHR ''-'' \<notin> set m" by simp
    with v have "lower v = m" by (rule variant_lower)
    with True have "contains (lower v) ''public domain''" by simp
    then have "list_ex (\<lambda>phrase. contains (lower v) phrase) OPEN_PHRASES"
      by (simp add: OPEN_PHRASES_def)
    with ne cl show ?thesis by (simp add: license_is_open_def)
  next
    case False
    with assms(1) have "map canon_char m = m"
      by (auto simp: ACCEPTED_def canon_char_def)
    with can have "prefix m (canonical_of v)" by simp
    with assms(1) have "list_ex (\<lambda>p. prefix p (canonical_of v)) ACCEPTED"
      by (auto simp: list_ex_iff)
    with ne cl show ?thesis by (simp add: license_is_open_def)
  qed
qed

lemma license_is_open_null_empty:
  "\<not> license_is_open None \<and> \<not> license_is_open (Some [])"
  by (simp add: license_is_open_def)

text \<open>
  Claim C3: \<^verbatim>\<open>license_is_open\<close> is true for every member of the allow-list in any case
  and with any spacing. The member \<^verbatim>\<open>public domain\<close> is written with a space, and the
  canonical form never holds a space: the entry matches nothing, and the identifier is
  open only where the phrase \<^verbatim>\<open>public domain\<close> of the fallback occurs. Written with an
  underscore or with the hyphen of the canonical form it is not open.
\<close>

theorem license_is_open_public_domain:
  "\<not> license_is_open (Some ''public_domain'')
   \<and> \<not> license_is_open (Some ''public-domain'')
   \<and> \<not> license_is_open (Some ''Public_Domain'')
   \<and> canonical_of (cleaned_of ''Public Domain'') = ''public-domain''
   \<and> \<not> list_ex (\<lambda>p. prefix p ''public-domain'') ACCEPTED
   \<and> license_is_open (Some ''Public Domain'')
   \<and> license_is_open (Some ''CC_BY'')"
  by code_simp

section \<open>The file classifier\<close>

lemma contains_iff: "contains s sub \<longleftrightarrow> (\<exists>pre post. s = pre @ sub @ post)"
proof (induction s)
  case Nil
  show ?case by auto
next
  case (Cons c cs)
  show ?case
  proof
    assume "contains (c # cs) sub"
    then consider "prefix sub (c # cs)" | "contains cs sub" by auto
    then show "\<exists>pre post. c # cs = pre @ sub @ post"
    proof cases
      case 1
      then obtain post where "c # cs = sub @ post" by (auto simp: prefix_def)
      then have "c # cs = [] @ sub @ post" by simp
      then show ?thesis by blast
    next
      case 2
      with Cons obtain pre post where "cs = pre @ sub @ post" by blast
      then have "c # cs = (c # pre) @ sub @ post" by simp
      then show ?thesis by blast
    qed
  next
    assume "\<exists>pre post. c # cs = pre @ sub @ post"
    then obtain pre post where e: "c # cs = pre @ sub @ post" by blast
    show "contains (c # cs) sub"
    proof (cases pre)
      case Nil
      with e have "prefix sub (c # cs)" by (simp add: prefix_def)
      then show ?thesis by simp
    next
      case (Cons p pre')
      with e have "cs = pre' @ sub @ post" by simp
      with Cons.IH have "contains cs sub" by blast
      then show ?thesis by simp
    qed
  qed
qed

text \<open>
  Claim C8: if the lower-cased extension of the file name is in the configured set of
  qualitative-analysis formats, \<^verbatim>\<open>_is_qda_file\<close> is true whatever content type (and whatever
  else) the descriptor declares; and if the friendly-type label of the descriptor contains
  the marker \<^verbatim>\<open>refi-qda\<close> in any case, \<^verbatim>\<open>_is_qda_file\<close> is true even when the
  extension is not in the set.
\<close>

theorem is_qda_file_classifier:
  "(lower (path_suffix fname) \<in> QDA_FORMATS cfg \<longrightarrow>
      is_qda_file cfg fname (finfo\<lparr>fi_content_type := ct\<rparr>))
   \<and> (fi_friendly_type finfo = Some label \<and> contains (lower label) ''refi-qda''
        \<and> lower (path_suffix fname) \<notin> QDA_FORMATS cfg \<longrightarrow>
      is_qda_file cfg fname finfo)"
  by (simp add: is_qda_file_def get_str_def)

theorem is_qda_file_classifier_witness:
  "lower (path_suffix ''Interview.QDPX'') \<in> QDA_FORMATS ex_cfg
   \<and> is_qda_file ex_cfg ''Interview.QDPX''
       ((mk_file ''Interview.QDPX'' ''u'' None False)\<lparr>fi_content_type := Some ''application/zip''\<rparr>)
   \<and> fi_friendly_type ((mk_file ''project.zip'' ''u'' None False)
         \<lparr>fi_friendly_type := Some ''REFI-QDA Project''\<rparr>) = Some ''REFI-QDA Project''
   \<and> contains (lower ''REFI-QDA Project'') ''refi-qda''
   \<and> lower (path_suffix ''project.zip'') \<notin> QDA_FORMATS ex_cfg
   \<and> is_qda_file ex_cfg ''project.zip''
       ((mk_file ''project.zip'' ''u'' None False)\<lparr>fi_friendly_type := Some ''REFI-QDA Project''\<rparr>)"
  using is_qda_file_classifier [where fname = "''Interview.QDPX''" and cfg = ex_cfg
      and finfo = "mk_file ''Interview.QDPX'' ''u'' None False"
      and ct = "Some ''application/zip''" and label = "''REFI-QDA Project''"]
    is_qda_file_classifier [where fname = "''project.zip''" and cfg = ex_cfg
      and finfo = "(mk_file ''project.zip'' ''u'' None False)\<lparr>fi_friendly_type := Some ''REFI-QDA Project''\<rparr>"
      and ct = "Some ''text/plain''" and label = "''REFI-QDA Project''"]
  by (simp add: ex_cfg_def mk_file_def path_suffix_def path_name_def path_parts_def rfind_def
      lower_def lower_char_def)

section \<open>The driver: seen URLs and the cap\<close>

lemma set_take_cap: "set (take_cap cap hits) \<subseteq> set hits"
  by (auto simp: take_cap_def split: option.splits dest: in_set_takeD)

lemma select_hits_seen:
  "fst (select_hits seen_urls cap found) = seen_urls \<union> h_source_url ` set found"
  by (auto simp: select_hits_def Let_def)

lemma select_hits_fresh:
  "h \<in> set (snd (select_hits seen_urls cap found)) \<Longrightarrow> h_source_url h \<notin> seen_urls"
  using set_take_cap [of cap "filter (\<lambda>h. h_source_url h \<notin> seen_urls) found"]
  by (auto simp: select_hits_def Let_def)

lemma seen_query_step:
  "seen (query_step proc src cap q d) =
     (case src_find src q of None \<Rightarrow> seen d | Some found \<Rightarrow> seen d \<union> h_source_url ` set found)"
proof (cases "src_find src q")
  case None
  then show ?thesis by (simp add: query_step_def)
next
  case (Some found)
  have "fst (select_hits (seen d) cap found) = seen d \<union> h_source_url ` set found"
    by (rule select_hits_seen)
  with Some show ?thesis
    by (auto simp: query_step_def split: prod.splits)
qed

lemma seen_query_step_mono: "seen d \<subseteq> seen (query_step proc src cap q d)"
  by (auto simp: seen_query_step split: option.splits)

lemma seen_run_queries_mono: "seen d \<subseteq> seen (run_queries proc src cap qs d)"
proof (induction qs arbitrary: d)
  case Nil
  show ?case by (simp add: run_queries_def)
next
  case (Cons q qs)
  have "seen d \<subseteq> seen (query_step proc src cap q d)"
    by (rule seen_query_step_mono)
  also have "\<dots> \<subseteq> seen (run_queries proc src cap qs (query_step proc src cap q d))"
    by (rule Cons.IH)
  finally show ?case by (simp add: run_queries_def)
qed

lemma run_queries_append:
  "run_queries proc src cap (xs @ ys) d = run_queries proc src cap ys (run_queries proc src cap xs d)"
  by (simp add: run_queries_def)

lemma run_queries_Cons:
  "run_queries proc src cap (q # qs) d = run_queries proc src cap qs (query_step proc src cap q d)"
  by (simp add: run_queries_def)

text \<open>
  The iteration for a query hands to the pipeline exactly \<open>hits_fed\<close>, and hands it
  nothing when that list is empty.
\<close>

lemma query_step_feeds:
  "query_step proc src cap q d =
     (case src_find src q of
        None \<Rightarrow> d
      | Some found \<Rightarrow>
          if hits_fed src cap q d = [] then d\<lparr>seen := seen d \<union> h_source_url ` set found\<rparr>
          else (case proc (hits_fed src cap q d) (world d) of
                  (w', dl, rest, skip) \<Rightarrow>
                    \<lparr>seen = seen d \<union> h_source_url ` set found, world = w',
                     tot_dl = tot_dl d + dl, tot_rest = tot_rest d + rest,
                     tot_skip = tot_skip d + skip\<rparr>))"
proof (cases "src_find src q")
  case None
  then show ?thesis by (simp add: query_step_def)
next
  case (Some found)
  obtain s' hs where sh: "select_hits (seen d) cap found = (s', hs)"
    by (cases "select_hits (seen d) cap found")
  with select_hits_seen [of "seen d" cap found]
  have s': "s' = seen d \<union> h_source_url ` set found" by simp
  from Some sh show ?thesis
    by (simp add: query_step_def hits_fed_def s')
qed

text \<open>
  Claim C10: in \<^verbatim>\<open>_run_source\<close> the seen-set takes every hit that survives the seen-filter
  before the cap cuts the list. So for queries \<open>q1\<close> before \<open>q2\<close> in one run (the run
  has worked through \<open>qs1\<close>, \<open>q1\<close> and \<open>qs2\<close> when it reaches \<open>q2\<close>), no dataset URL
  that the search for \<open>q1\<close> returned is among the hits handed to the pipeline under
  \<open>q2\<close>, whether or not the cap dropped it under \<open>q1\<close>.
\<close>

theorem run_source_seen_before_cap:
  assumes "src_find src q1 = Some found1" and "h \<in> set found1"
  shows "h_source_url h \<notin>
           h_source_url ` set (hits_fed src cap q2 (run_queries proc src cap (qs1 @ q1 # qs2) d0))"
proof -
  let ?d1 = "run_queries proc src cap qs1 d0"
  let ?d2 = "query_step proc src cap q1 ?d1"
  let ?d3 = "run_queries proc src cap qs2 ?d2"
  have run: "run_queries proc src cap (qs1 @ q1 # qs2) d0 = ?d3"
    by (simp add: run_queries_append run_queries_Cons)
  from assms have "h_source_url h \<in> seen ?d2"
    by (simp add: seen_query_step)
  moreover have "seen ?d2 \<subseteq> seen ?d3"
    by (rule seen_run_queries_mono)
  ultimately have in_seen: "h_source_url h \<in> seen ?d3" by blast
  show ?thesis
  proof
    assume "h_source_url h \<in> h_source_url ` set (hits_fed src cap q2 (run_queries proc src cap (qs1 @ q1 # qs2) d0))"
    then obtain h' where h': "h' \<in> set (hits_fed src cap q2 ?d3)" "h_source_url h' = h_source_url h"
      unfolding run by auto
    have "h_source_url h' \<notin> seen ?d3"
    proof (cases "src_find src q2")
      case None
      with h'(1) show ?thesis by (simp add: hits_fed_def)
    next
      case (Some found2)
      with h'(1) have "h' \<in> set (snd (select_hits (seen ?d3) cap found2))"
        by (simp add: hits_fed_def)
      then show ?thesis by (rule select_hits_fresh)
    qed
    with h'(2) in_seen show False by simp
  qed
qed

theorem run_source_seen_before_cap_witness:
  "src_find ex_search_source ''interview'' = Some [mk_hit ''ds/A'', mk_hit ''ds/B'']
   \<and> mk_hit ''ds/B'' \<in> set [mk_hit ''ds/A'', mk_hit ''ds/B'']
   \<and> h_source_url (mk_hit ''ds/B'') \<notin>
       h_source_url ` set (hits_fed ex_search_source (Some 1) ''focus group''
         (run_queries recording ex_search_source (Some 1) ([] @ ''interview'' # []) fresh_driver))
   \<and> world (run_queries recording ex_search_source (Some 1) [''interview'', ''focus group'']
        fresh_driver) = [[mk_hit ''ds/A''], [mk_hit ''ds/C'']]"
  using run_source_seen_before_cap [where src = ex_search_source and ?q1.0 = "''interview''"
      and ?found1.0 = "[mk_hit ''ds/A'', mk_hit ''ds/B'']" and h = "mk_hit ''ds/B''"
      and cap = "Some 1" and ?q2.0 = "''focus group''" and proc = recording
      and ?qs1.0 = "[]" and ?qs2.0 = "[]" and ?d0.0 = fresh_driver]
  by (simp add: ex_search_source_def ex_find_def run_queries_def query_step_def
      select_hits_def take_cap_def recording_def fresh_driver_def mk_hit_def mk_meta_def)

end
